theory Spec2Isabelle
  imports Complex_Main
begin

section \<open>Data model\<close>

text \<open>
  The arrays of \<^verbatim>\<open>msd.py\<close> are numpy arrays of floats. A trajectory array has five
  columns: track id, frame, x, y and z. Track ids and frames are whole numbers stored as
  floats, so \<^verbatim>\<open>int(...)\<close> on them changes nothing and they are modelled as \<open>int\<close>;
  the coordinates are modelled as \<open>real\<close>. A two-dimensional array is the list of its rows.
\<close>

record point =
  track :: int
  frame :: int
  xpos :: real
  ypos :: real
  zpos :: real

text \<open>The exceptions the modelled code can raise. A \<^verbatim>\<open>ValueError\<close> carries its cause: the
  \<open>max\<close> or \<open>min\<close> of an empty sequence, a negative array dimension, or values that
  cannot be broadcast to the shape they are assigned to.\<close>

datatype value_error = EmptySequence | NegativeDimensions | CannotBroadcast

datatype error =
    AssertionError string
  | IndexError
  | ValueError value_error
  | TypeError
  | NameError

definition ebind :: "error + 'a \<Rightarrow> ('a \<Rightarrow> error + 'b) \<Rightarrow> error + 'b" where
  "ebind m f = (case m of Inl e \<Rightarrow> Inl e | Inr v \<Rightarrow> f v)"

text \<open>Indexing one axis with an integer: a negative index counts from the end.\<close>

definition py_index :: "'a list \<Rightarrow> int \<Rightarrow> error + 'a" where
  "py_index xs i =
     (if 0 \<le> i \<and> i < int (length xs) then Inr (xs ! nat i)
      else if i < 0 \<and> 0 \<le> i + int (length xs) then Inr (xs ! nat (i + int (length xs)))
      else Inl IndexError)"

definition py_store :: "'a list \<Rightarrow> int \<Rightarrow> 'a \<Rightarrow> error + 'a list" where
  "py_store xs i v =
     (if 0 \<le> i \<and> i < int (length xs) then Inr (xs[nat i := v])
      else if i < 0 \<and> 0 \<le> i + int (length xs) then Inr (xs[nat (i + int (length xs)) := v])
      else Inl IndexError)"

text \<open>\<^verbatim>\<open>max\<close> and \<open>min\<close> of a sequence raise on the empty one.\<close>

fun py_max :: "int list \<Rightarrow> error + int" where
  "py_max [] = Inl (ValueError EmptySequence)"
| "py_max (v # vs) = Inr (fold max vs v)"

fun py_min :: "int list \<Rightarrow> error + int" where
  "py_min [] = Inl (ValueError EmptySequence)"
| "py_min (v # vs) = Inr (fold min vs v)"

text \<open>\<^verbatim>\<open>np.diff\<close> of a one-dimensional array.\<close>

fun np_diff :: "int list \<Rightarrow> int list" where
  "np_diff (a # b # vs) = (b - a) # np_diff (b # vs)"
| "np_diff vs = []"

text \<open>\<^verbatim>\<open>np.zeros((n, 5))\<close>: a negative dimension is refused.\<close>

definition zero_point :: point where
  "zero_point = \<lparr>track = 0, frame = 0, xpos = 0, ypos = 0, zpos = 0\<rparr>"

definition np_zeros :: "int \<Rightarrow> 'a \<Rightarrow> error + 'a list" where
  "np_zeros n z =
     (if n < 0 then Inl (ValueError NegativeDimensions) else Inr (replicate (nat n) z))"

text \<open>
  \<^verbatim>\<open>np.linspace(start, stop, num)\<close> on whole numbers. The step is
  \<open>(stop - start) / (num - 1)\<close>; the division is exact at the only call, where
  \<open>stop - start = num - 1\<close>, and \<open>num = 1\<close> gives the single value \<open>start\<close>.
\<close>

definition linspace :: "int \<Rightarrow> int \<Rightarrow> int \<Rightarrow> int list" where
  "linspace start stop num =
     map (\<lambda>k. start + int k * ((stop - start) div (num - 1))) [0..<nat num]"

section \<open>The trajectory filler \<^verbatim>\<open>fillin2\<close>\<close>

text \<open>
  The two assignments that end the loop body (lines 84 and 85): column 0 and columns 2 to
  4 of the row are taken from the source row, column 1 (the frame) is kept.
\<close>

definition copy_fields :: "point \<Rightarrow> point \<Rightarrow> point" where
  "copy_fields cur src = cur\<lparr>track := track src, xpos := xpos src, ypos := ypos src,
                             zpos := zpos src\<rparr>"

text \<open>
  The loop of lines 75 to 86, over the values \<open>num\<close> of \<^verbatim>\<open>range(1, newshap)\<close>. The state
  is the four counters \<open>count\<close>, \<open>new\<close>, \<open>other\<close>, \<open>tot\<close> and the array
  \<open>filledin\<close>. Each index expression is evaluated as Python does, so an index out of
  range is an \<open>IndexError\<close> of the model. The index of line 77 uses \<open>new\<close> as it is
  before the branch, the index of lines 84 and 85 uses it as it is after.
\<close>

fun fill_loop ::
  "point list \<Rightarrow> int list \<Rightarrow> nat list \<Rightarrow> int \<times> int \<times> int \<times> int \<Rightarrow> point list
     \<Rightarrow> error + point list" where
  "fill_loop data frames [] st filledin = Inr filledin"
| "fill_loop data frames (num # nums) (count, new, other, tot) filledin =
     (case py_index filledin (int num) of Inl e \<Rightarrow> Inl e | Inr cur \<Rightarrow>
      case py_index frames (int num - new - 1) of Inl e \<Rightarrow> Inl e | Inr f \<Rightarrow>
        let count' = (if frame cur - f = 0 then count + 1 else count);
            new' = (if frame cur - f = 0 then new else if frame cur - f < 0 then new + 1 else new);
            other' = (if frame cur - f = 0 then other else if frame cur - f < 0 then other
                      else other + 1)
        in
        case py_index data (int num - new' - 1) of Inl e \<Rightarrow> Inl e | Inr src \<Rightarrow>
          fill_loop data frames nums (count', new', other', count' + new' + other')
            (filledin[num := copy_fields cur src]))"

text \<open>
  \<^verbatim>\<open>fillin2(data)\<close>. The assertions on the column count and on the array type hold by
  typing. The assertion on the frames is checked before the one on emptiness, as in the
  source. \<^verbatim>\<open>filledin[:, 1] = np.linspace(...)\<close> assigns \<open>newshap\<close> values to the
  \<open>newshap\<close> rows of \<open>filledin\<close>.
\<close>

definition fillin2 :: "point list \<Rightarrow> error + point list" where
  "fillin2 data =
     (if \<not> list_all (\<lambda>d. d = \<bar>d\<bar>) (np_diff (map frame data))
      then Inl (AssertionError ''Frames must all increase.'')
      else if \<not> 0 < length data then Inl (AssertionError ''Array must not be empty.'')
      else
        ebind (py_max (map frame data)) (\<lambda>mx.
        ebind (py_min (map frame data)) (\<lambda>shape1.
          let shap = mx + 1;
              newshap = shap - shape1
          in
          ebind (np_zeros newshap zero_point) (\<lambda>filledin0.
          ebind (py_index data 0) (\<lambda>first.
          ebind (py_store filledin0 0 first) (\<lambda>filledin1.
            let frames = map frame data;
                filledin2 = map2 (\<lambda>r f. r\<lparr>frame := f\<rparr>) filledin1
                              (linspace shape1 (shap - 1) newshap)
            in fill_loop data frames [1..<nat newshap] (0, 0, 0, 0) filledin2))))))"

section \<open>The trajectory assembler \<^verbatim>\<open>MSD_iteration\<close>\<close>

text \<open>
  A position matrix is the list of its rows (one row per frame, one cell per particle).
\<close>

type_synonym matrix = "real list list"

definition np_zeros2 :: "int \<Rightarrow> int \<Rightarrow> error + matrix" where
  "np_zeros2 r c =
     (if r < 0 \<or> c < 0 then Inl (ValueError NegativeDimensions)
      else Inr (replicate (nat r) (replicate (nat c) 0)))"

text \<open>
  A bound of a slice \<^verbatim>\<open>a:b\<close> over an axis of length \<open>n\<close>: a negative bound counts
  from the end, and both are clipped to the axis.
\<close>

definition slice_index :: "nat \<Rightarrow> int \<Rightarrow> nat" where
  "slice_index n i = (if i < 0 then nat (max (i + int n) 0) else min (nat i) n)"

definition py_slice :: "'a list \<Rightarrow> int \<Rightarrow> int \<Rightarrow> 'a list" where
  "py_slice vs start stop =
     take (slice_index (length vs) stop - slice_index (length vs) start)
       (drop (slice_index (length vs) start) vs)"

definition ncols :: "matrix \<Rightarrow> nat" where
  "ncols M = (case M of [] \<Rightarrow> 0 | r # _ \<Rightarrow> length r)"

text \<open>
  \<^verbatim>\<open>M[start:stop, col] = vals\<close>. The column index is checked first; the values must
  have the length of the slice, or length one (numpy then repeats the single value).
\<close>

definition assign_col_slice :: "matrix \<Rightarrow> int \<Rightarrow> int \<Rightarrow> int \<Rightarrow> real list \<Rightarrow> error + matrix" where
  "assign_col_slice M start stop col vals =
     (let s = slice_index (length M) start;
          e = slice_index (length M) stop;
          c = int (ncols M)
      in
      if \<not> (- c \<le> col \<and> col < c) then Inl IndexError
      else if length vals \<noteq> e - s \<and> length vals \<noteq> 1 then Inl (ValueError CannotBroadcast)
      else Inr (map (\<lambda>r. if s \<le> r \<and> r < e
                           then (M ! r)[nat (if col < 0 then col + c else col) :=
                                  (if length vals = 1 then vals ! 0 else vals ! (r - s))]
                           else M ! r) [0..<length M]))"

text \<open>
  The first loop (lines 164 to 175) over the arrays \<open>trajectory[1], ..., trajectory[totvids]\<close>.
  Reading the files is outside the model: the arrays, with the first column of each file
  already deleted, are the parameter. The loop keeps the cumulative particle totals
  \<open>newtots\<close> (a list that starts as \<open>[0]\<close>) and the largest frame seen.
\<close>

fun read_sessions :: "point list list \<Rightarrow> int list \<Rightarrow> int \<Rightarrow> error + (int list \<times> int)" where
  "read_sessions [] newtots frames = Inr (newtots, frames)"
| "read_sessions (traj # rest) newtots frames =
     (case py_index traj (- 1) of Inl e \<Rightarrow> Inl e | Inr lastrow \<Rightarrow>
      case py_index newtots (- 1) of Inl e \<Rightarrow> Inl e | Inr prev \<Rightarrow>
      case py_max (map frame traj) of Inl e \<Rightarrow> Inl e | Inr m \<Rightarrow>
        read_sessions rest (newtots @ [prev + track lastrow]) (if m > frames then m else frames))"

text \<open>The second loop (lines 179 to 181): the sessions one after the other (the row
  offsets \<^verbatim>\<open>tlength\<close> of the source are the lengths of the lists put together), each with
  its track ids shifted by the total of the sessions before it.\<close>

definition shift_ids :: "point list list \<Rightarrow> int list \<Rightarrow> point list" where
  "shift_ids trajectory newtots =
     concat (map2 (\<lambda>traj off. map (\<lambda>p. p\<lparr>track := track p + off\<rparr>) traj) trajectory newtots)"

text \<open>Lines 190 to 193: the unit conversion. Both x and y are scaled by \<open>conversion[0]\<close>
  and z by \<open>conversion[2]\<close>.\<close>

definition convert :: "real \<times> real \<times> real \<Rightarrow> point \<Rightarrow> point" where
  "convert conversion p =
     p\<lparr>xpos := fst conversion * xpos p, ypos := fst conversion * ypos p,
       zpos := snd (snd conversion) * zpos p\<rparr>"

text \<open>\<^verbatim>\<open>np.where(particles == num)[0]\<close>: the indices of the records of particle \<open>num\<close>.\<close>

definition itindex :: "int list \<Rightarrow> int \<Rightarrow> int list" where
  "itindex particles num = map int (filter (\<lambda>i. particles ! i = num) [0..<length particles])"

type_synonym assembly = "int \<times> matrix \<times> matrix \<times> matrix \<times> matrix"

text \<open>Lines 213 to 217: the filled trajectory is written into one column of each matrix.\<close>

definition scatter :: "point list \<Rightarrow> int \<Rightarrow> assembly \<Rightarrow> error + assembly" where
  "scatter holdplease col st =
     (case st of (nones, x, y, xs, ys) \<Rightarrow>
      ebind (py_index holdplease 0) (\<lambda>h0.
      ebind (py_index holdplease (- 1)) (\<lambda>hl.
      ebind (assign_col_slice x (frame h0) (frame hl + 1) col (map xpos holdplease)) (\<lambda>x'.
      ebind (assign_col_slice y (frame h0) (frame hl + 1) col (map ypos holdplease)) (\<lambda>y'.
      ebind (assign_col_slice xs 0 (frame hl + 1 - frame h0) col (map xpos holdplease)) (\<lambda>xs'.
      ebind (assign_col_slice ys 0 (frame hl + 1 - frame h0) col (map ypos holdplease)) (\<lambda>ys'.
        Inr (nones, x', y', xs', ys'))))))))"

text \<open>The body of the loop over the particles (lines 204 to 217).\<close>

definition place_particle :: "point list \<Rightarrow> int list \<Rightarrow> int \<Rightarrow> int \<Rightarrow> assembly \<Rightarrow> error + assembly" where
  "place_particle fixed particles cutoff num st =
     (case st of (nones, x, y, xs, ys) \<Rightarrow>
      ebind (py_min (itindex particles num)) (\<lambda>min1.
      ebind (py_max (itindex particles num)) (\<lambda>max1.
        if max1 - min1 < cutoff then Inr (nones + 1, x, y, xs, ys)
        else ebind (fillin2 (py_slice fixed min1 (max1 + 1))) (\<lambda>holdplease.
               scatter holdplease (num - nones - 1) st))))"

fun assemble_loop :: "point list \<Rightarrow> int list \<Rightarrow> int \<Rightarrow> int list \<Rightarrow> assembly \<Rightarrow> error + assembly" where
  "assemble_loop fixed particles cutoff [] st = Inr st"
| "assemble_loop fixed particles cutoff (num # nums) st =
     (case place_particle fixed particles cutoff num st of
        Inl e \<Rightarrow> Inl e
      | Inr st' \<Rightarrow> assemble_loop fixed particles cutoff nums st')"

text \<open>
  \<^verbatim>\<open>MSD_iteration(folder, name, cut, totvids, conversion)\<close>, from the loaded arrays on.
  The parameter \<open>cutoff\<close> is the source's \<^verbatim>\<open>cut\<close> (line 201 copies it into
  \<^verbatim>\<open>cutoff\<close>). The result is \<open>(total1, xs_m, ys_m, x_m, y_m)\<close>.
\<close>

definition MSD_iteration :: "point list list \<Rightarrow> int \<Rightarrow> real \<times> real \<times> real \<Rightarrow> error + assembly" where
  "MSD_iteration trajectory cutoff conversion =
     ebind (read_sessions trajectory [0] 0) (\<lambda>(newtots, frames).
       let placeholder = shift_ids trajectory newtots;
           particles = map track placeholder
       in
       ebind (py_max particles) (\<lambda>total.
         let total1 = total + 1;
             fixed = map (convert conversion) placeholder
         in
         ebind (np_zeros2 (frames + 1) total1) (\<lambda>x.
         ebind (np_zeros2 (frames + 1) total1) (\<lambda>y.
         ebind (np_zeros2 (frames + 1) total1) (\<lambda>xs.
         ebind (np_zeros2 (frames + 1) total1) (\<lambda>ys.
         ebind (assemble_loop fixed particles cutoff [1..total1 - 1] (0, x, y, xs, ys))
           (\<lambda>(nones, x, y, xs, ys).
             let total1 = total1 - nones - 1 in
             Inr (total1, map (\<lambda>r. py_slice r 0 total1) xs, map (\<lambda>r. py_slice r 0 total1) ys,
                  map (\<lambda>r. py_slice r 0 total1) x, map (\<lambda>r. py_slice r 0 total1) y))))))))"

section \<open>The statistics engine \<^verbatim>\<open>vectorized_MMSD_calcs\<close>\<close>

text \<open>
  A cell of a masked array is \<open>None\<close> when it is masked and \<open>Some v\<close> otherwise. Float
  arithmetic is modelled by the arithmetic of \<open>real\<close>.
\<close>

type_synonym mvec = "real option list"
type_synonym mmatrix = "real option list list"

text \<open>\<^verbatim>\<open>ma.masked_equal(a, value)\<close>: a fresh masked array, masked where \<open>a\<close> equals the value.\<close>

definition masked_equal :: "matrix \<Rightarrow> real \<Rightarrow> mmatrix" where
  "masked_equal a v = map (map (\<lambda>c. if c = v then None else Some c)) a"

text \<open>Subtraction and squaring of masked cells: the result is masked when an operand is.\<close>

fun ma_sub :: "real option \<Rightarrow> real option \<Rightarrow> real option" where
  "ma_sub (Some b) (Some c) = Some (b - c)"
| "ma_sub b c = None"

fun ma_add :: "real option \<Rightarrow> real option \<Rightarrow> real option" where
  "ma_add (Some b) (Some c) = Some (b + c)"
| "ma_add b c = None"

fun ma_sq :: "real option \<Rightarrow> real option" where
  "ma_sq (Some b) = Some (b ^ 2)"
| "ma_sq None = None"

text \<open>The logarithm of a masked cell: numpy masks the cells outside the domain of \<open>log\<close>.\<close>

fun ma_log :: "real option \<Rightarrow> real option" where
  "ma_log (Some b) = (if b \<le> 0 then None else Some (ln b))"
| "ma_log None = None"

text \<open>The mean of a masked one-dimensional array: the masked cells are left out, and the
  mean of no cell at all is masked.\<close>

definition unmasked :: "mvec \<Rightarrow> real list" where
  "unmasked vs = concat (map (\<lambda>v. case v of None \<Rightarrow> [] | Some r \<Rightarrow> [r]) vs)"

definition ma_mean :: "mvec \<Rightarrow> real option" where
  "ma_mean vs =
     (if unmasked vs = [] then None
      else Some (sum_list (unmasked vs) / real (length (unmasked vs))))"

text \<open>\<^verbatim>\<open>np.mean(M, axis=0)\<close> of a masked array with \<open>n\<close> columns: one mean per column.\<close>

definition ma_mean_axis0 :: "nat \<Rightarrow> mmatrix \<Rightarrow> mvec" where
  "ma_mean_axis0 n M = map (\<lambda>p. ma_mean (map (\<lambda>row. row ! p) M)) [0..<n]"

text \<open>
  Lines 244 to 248 (and 253 to 257 for y). The loop variable \<^verbatim>\<open>frame\<close> of the source is
  the lag; it is called \<open>lag\<close> here. \<open>b\<close> is the single row \<open>lag\<close> of the matrix,
  \<open>c\<close> is the matrix without its last \<open>lag\<close> rows, \<open>b\<close> is subtracted from every row of
  \<open>c\<close> (broadcasting), the differences are squared, and the mean is taken down each column.
\<close>

definition lag_mean :: "mmatrix \<Rightarrow> int \<Rightarrow> error + mvec" where
  "lag_mean m lag =
     ebind (py_index m lag) (\<lambda>b.
       let c = py_slice m 0 (- lag);
           M = map (\<lambda>row. map2 (\<lambda>bv cv. ma_sq (ma_sub bv cv)) b row) c
       in Inr (ma_mean_axis0 (length b) M))"

text \<open>
  \<^verbatim>\<open>SM[lag, :] = vals\<close> on a plain array \<open>SM\<close>. The row index is checked first; the
  values must have the length of the row, or length one. A plain array has no mask: for a
  masked cell of \<open>vals\<close> it receives the number that numpy keeps under the mask, which
  for a masked mean is \<open>0.0\<close>. So a particle without any valid sample at a lag gets the
  number 0 in the accumulator.
\<close>

definition filled :: "mvec \<Rightarrow> real list" where
  "filled vals = map (\<lambda>v. case v of None \<Rightarrow> 0 | Some r \<Rightarrow> r) vals"

definition assign_row :: "matrix \<Rightarrow> int \<Rightarrow> mvec \<Rightarrow> error + matrix" where
  "assign_row SM lag vals =
     ebind (py_index SM lag) (\<lambda>old.
       if length vals = length old then py_store SM lag (filled vals)
       else if length vals = 1 then py_store SM lag (replicate (length old) (filled vals ! 0))
       else Inl (ValueError CannotBroadcast))"

text \<open>
  The loop of lines 243 to 262. Besides the two accumulators the state holds the loop's
  variables \<open>Mxa\<close> and \<open>Mya\<close>, which line 264 reads after the loop: they are unbound
  (\<open>None\<close>) until the first iteration has run.
\<close>

type_synonym lag_state = "mvec option \<times> mvec option \<times> matrix \<times> matrix"

definition lag_step :: "mmatrix \<Rightarrow> mmatrix \<Rightarrow> int \<Rightarrow> lag_state \<Rightarrow> error + lag_state" where
  "lag_step xs_m ys_m lag st =
     (case st of (Mxa0, Mya0, SM1x, SM1y) \<Rightarrow>
      ebind (lag_mean xs_m lag) (\<lambda>Mxa.
      ebind (lag_mean ys_m lag) (\<lambda>Mya.
      ebind (assign_row SM1x lag Mxa) (\<lambda>SM1x'.
      ebind (assign_row SM1y lag Mya) (\<lambda>SM1y'.
        Inr (Some Mxa, Some Mya, SM1x', SM1y'))))))"

fun lag_loop :: "mmatrix \<Rightarrow> mmatrix \<Rightarrow> int list \<Rightarrow> lag_state \<Rightarrow> error + lag_state" where
  "lag_loop xs_m ys_m [] st = Inr st"
| "lag_loop xs_m ys_m (lag # rest) st =
     (case lag_step xs_m ys_m lag st of
        Inl e \<Rightarrow> Inl e
      | Inr st' \<Rightarrow> lag_loop xs_m ys_m rest st')"

text \<open>\<^verbatim>\<open>Mya + Mxa\<close> on two one-dimensional masked arrays, with broadcasting.\<close>

definition ma_add_vec :: "mvec \<Rightarrow> mvec \<Rightarrow> error + mvec" where
  "ma_add_vec a b =
     (if length a = length b then Inr (map2 ma_add a b)
      else if length a = 1 then Inr (map (\<lambda>v. ma_add (a ! 0) v) b)
      else if length b = 1 then Inr (map (\<lambda>v. ma_add v (b ! 0)) a)
      else Inl (ValueError CannotBroadcast))"

text \<open>
  Line 268 calls \<^verbatim>\<open>np.ma.mean(dist, axix=0)\<close>. The mean of a masked array has no
  parameter \<^verbatim>\<open>axix\<close>, so the call raises \<^verbatim>\<open>TypeError\<close> whatever its array is.
\<close>

definition np_ma_mean_axix :: "mvec \<Rightarrow> error + 'a" where
  "np_ma_mean_axix a = Inl TypeError"

type_synonym statistics = "real option \<times> real option \<times> matrix \<times> matrix \<times> matrix"

text \<open>
  \<^verbatim>\<open>vectorized_MMSD_calcs(frames, total1, xs_m, ys_m, x_m, y_m, frame_m)\<close>. Lines 269 to
  272 come after the call that always raises and are never run, so the model ends with
  that call. After an empty loop line 264 reads the unbound \<^verbatim>\<open>Mya\<close>, a
  \<^verbatim>\<open>NameError\<close>.
\<close>

definition vectorized_MMSD_calcs ::
  "int \<Rightarrow> int \<Rightarrow> matrix \<Rightarrow> matrix \<Rightarrow> matrix \<Rightarrow> matrix \<Rightarrow> int \<Rightarrow> error + statistics" where
  "vectorized_MMSD_calcs frames total1 xs_m ys_m x_m y_m frame_m =
     ebind (np_zeros2 frames (total1 - 1)) (\<lambda>SM1x.
     ebind (np_zeros2 frames (total1 - 1)) (\<lambda>SM1y.
     ebind (np_zeros2 frames (total1 - 1)) (\<lambda>SM2xy.
       let xs_m' = masked_equal xs_m 0;
           ys_m' = masked_equal ys_m 0;
           x_m' = masked_equal x_m 0;
           y_m' = masked_equal y_m 0
       in
       ebind (np_zeros frame_m (0::real)) (\<lambda>geoM1x.
       ebind (np_zeros frame_m (0::real)) (\<lambda>geoM1y.
       ebind (lag_loop xs_m' ys_m' [1..frame_m - 1] (None, None, SM1x, SM1y)) (\<lambda>st.
         case st of
           (Some Mxa, Some Mya, SM1x', SM1y') \<Rightarrow>
             ebind (ma_add_vec Mya Mxa) (\<lambda>s.
               let dist' = map ma_log s in np_ma_mean_axix dist')
         | _ \<Rightarrow> Inl NameError))))))"

section \<open>The filler and the engine on a store of arrays\<close>

text \<open>
  To speak about mutation the arrays are put in a store: a list of arrays, the address of
  an array being its position. \<^verbatim>\<open>np.zeros\<close> and \<^verbatim>\<open>ma.masked_equal\<close> allocate a new array at
  the end of the store; an assignment \<^verbatim>\<open>a[...] = v\<close> updates the store at the address of
  \<open>a\<close>; a view such as \<^verbatim>\<open>frames = data[:, 1]\<close> is read through the address of the array
  it is a view of. A function returns the store it leaves behind, also when it raises.
\<close>

datatype arr =
    PointArr "point list"
  | PlainArr matrix
  | MaskedArr mmatrix
  | AccArr matrix
  | VecArr "real list"

type_synonym store = "arr list"

definition alloc :: "store \<Rightarrow> arr \<Rightarrow> store \<times> nat" where
  "alloc h a = (h @ [a], length h)"

text \<open>The loop of \<open>fillin2\<close>: \<open>d\<close> is the address of \<^verbatim>\<open>data\<close> (and of its view
  \<^verbatim>\<open>frames\<close>), \<open>f\<close> the address of \<^verbatim>\<open>filledin\<close>.\<close>

fun fill_loop_h ::
  "store \<Rightarrow> nat \<Rightarrow> nat \<Rightarrow> nat list \<Rightarrow> int \<times> int \<times> int \<times> int \<Rightarrow> store \<times> (error + unit)" where
  "fill_loop_h h d f [] st = (h, Inr ())"
| "fill_loop_h h d f (num # nums) (count, new, other, tot) =
     (case (h ! f, h ! d) of
        (PointArr filledin, PointArr data) \<Rightarrow>
          (case py_index filledin (int num) of Inl e \<Rightarrow> (h, Inl e) | Inr cur \<Rightarrow>
           case py_index (map frame data) (int num - new - 1) of Inl e \<Rightarrow> (h, Inl e) | Inr v \<Rightarrow>
             let count' = (if frame cur - v = 0 then count + 1 else count);
                 new' = (if frame cur - v = 0 then new
                         else if frame cur - v < 0 then new + 1 else new);
                 other' = (if frame cur - v = 0 then other
                           else if frame cur - v < 0 then other else other + 1)
             in
             case py_index data (int num - new' - 1) of Inl e \<Rightarrow> (h, Inl e) | Inr src \<Rightarrow>
               fill_loop_h (h[f := PointArr (filledin[num := copy_fields cur src])]) d f nums
                 (count', new', other', count' + new' + other'))
      | _ \<Rightarrow> (h, Inl TypeError))"

text \<open>\<^verbatim>\<open>fillin2(data)\<close> on the store; the result is the address of \<^verbatim>\<open>filledin\<close>.\<close>

definition fillin2_h :: "store \<Rightarrow> nat \<Rightarrow> store \<times> (error + nat)" where
  "fillin2_h h d =
     (case h ! d of
        PointArr data \<Rightarrow>
          if \<not> list_all (\<lambda>v. v = \<bar>v\<bar>) (np_diff (map frame data))
          then (h, Inl (AssertionError ''Frames must all increase.''))
          else if \<not> 0 < length data then (h, Inl (AssertionError ''Array must not be empty.''))
          else
            (case py_max (map frame data) of Inl e \<Rightarrow> (h, Inl e) | Inr mx \<Rightarrow>
             case py_min (map frame data) of Inl e \<Rightarrow> (h, Inl e) | Inr shape1 \<Rightarrow>
             case np_zeros (mx + 1 - shape1) zero_point of Inl e \<Rightarrow> (h, Inl e) | Inr z \<Rightarrow>
             case alloc h (PointArr z) of (h1, f) \<Rightarrow>
             case py_index data 0 of Inl e \<Rightarrow> (h1, Inl e) | Inr first \<Rightarrow>
             case py_store z 0 first of Inl e \<Rightarrow> (h1, Inl e) | Inr filledin1 \<Rightarrow>
               let h2 = h1[f := PointArr filledin1];
                   h3 = h2[f := PointArr (map2 (\<lambda>r v. r\<lparr>frame := v\<rparr>) filledin1
                                            (linspace shape1 (mx + 1 - 1) (mx + 1 - shape1)))]
               in
               case fill_loop_h h3 d f [1..<nat (mx + 1 - shape1)] (0, 0, 0, 0) of
                 (h4, Inl e) \<Rightarrow> (h4, Inl e)
               | (h4, Inr u) \<Rightarrow> (h4, Inr f))
      | _ \<Rightarrow> (h, Inl (AssertionError ''Input array must have five columns.'')))"

text \<open>
  One iteration of the engine's loop on the store: \<open>mxs\<close> and \<open>mys\<close> are the addresses of
  the masked copies of the relative matrices, \<open>aSx\<close> and \<open>aSy\<close> those of the accumulators
  \<^verbatim>\<open>SM1x\<close> and \<^verbatim>\<open>SM1y\<close>.
\<close>

definition lag_step_h ::
  "store \<Rightarrow> nat \<Rightarrow> nat \<Rightarrow> nat \<Rightarrow> nat \<Rightarrow> int \<Rightarrow> store \<times> (error + mvec option \<times> mvec option)" where
  "lag_step_h h mxs mys aSx aSy lag =
     (case (h ! mxs, h ! mys) of
        (MaskedArr xs_m, MaskedArr ys_m) \<Rightarrow>
          (case lag_mean xs_m lag of Inl e \<Rightarrow> (h, Inl e) | Inr Mxa \<Rightarrow>
           case lag_mean ys_m lag of Inl e \<Rightarrow> (h, Inl e) | Inr Mya \<Rightarrow>
           case h ! aSx of
             AccArr SM1x \<Rightarrow>
               (case assign_row SM1x lag Mxa of Inl e \<Rightarrow> (h, Inl e) | Inr SM1x' \<Rightarrow>
                case h[aSx := AccArr SM1x'] ! aSy of
                  AccArr SM1y \<Rightarrow>
                    (case assign_row SM1y lag Mya of
                       Inl e \<Rightarrow> (h[aSx := AccArr SM1x'], Inl e)
                     | Inr SM1y' \<Rightarrow>
                         (h[aSx := AccArr SM1x', aSy := AccArr SM1y'], Inr (Some Mxa, Some Mya)))
                | _ \<Rightarrow> (h[aSx := AccArr SM1x'], Inl TypeError))
           | _ \<Rightarrow> (h, Inl TypeError))
      | _ \<Rightarrow> (h, Inl TypeError))"

fun lag_loop_h ::
  "store \<Rightarrow> nat \<Rightarrow> nat \<Rightarrow> nat \<Rightarrow> nat \<Rightarrow> int list \<Rightarrow> mvec option \<times> mvec option
     \<Rightarrow> store \<times> (error + mvec option \<times> mvec option)" where
  "lag_loop_h h mxs mys aSx aSy [] st = (h, Inr st)"
| "lag_loop_h h mxs mys aSx aSy (lag # rest) st =
     (case lag_step_h h mxs mys aSx aSy lag of
        (h', Inl e) \<Rightarrow> (h', Inl e)
      | (h', Inr st') \<Rightarrow> lag_loop_h h' mxs mys aSx aSy rest st')"

text \<open>\<^verbatim>\<open>vectorized_MMSD_calcs\<close> on the store; \<open>axs\<close>, \<open>ays\<close>, \<open>ax\<close> and \<open>ay\<close> are the
  addresses of the four position matrices.\<close>

definition vectorized_MMSD_calcs_h ::
  "store \<Rightarrow> int \<Rightarrow> int \<Rightarrow> nat \<Rightarrow> nat \<Rightarrow> nat \<Rightarrow> nat \<Rightarrow> int \<Rightarrow> store \<times> (error + statistics)" where
  "vectorized_MMSD_calcs_h h frames total1 axs ays ax ay frame_m =
     (case np_zeros2 frames (total1 - 1) of Inl e \<Rightarrow> (h, Inl e) | Inr z \<Rightarrow>
      case alloc h (AccArr z) of (h1, aSx) \<Rightarrow>
      case alloc h1 (AccArr z) of (h2, aSy) \<Rightarrow>
      case alloc h2 (AccArr z) of (h3, aS2) \<Rightarrow>
      case (h3 ! axs, h3 ! ays, h3 ! ax, h3 ! ay) of
        (PlainArr xs_m, PlainArr ys_m, PlainArr x_m, PlainArr y_m) \<Rightarrow>
          (case alloc h3 (MaskedArr (masked_equal xs_m 0)) of (h4, mxs) \<Rightarrow>
           case alloc h4 (MaskedArr (masked_equal ys_m 0)) of (h5, mys) \<Rightarrow>
           case alloc h5 (MaskedArr (masked_equal x_m 0)) of (h6, mx) \<Rightarrow>
           case alloc h6 (MaskedArr (masked_equal y_m 0)) of (h7, my) \<Rightarrow>
           case np_zeros frame_m (0::real) of Inl e \<Rightarrow> (h7, Inl e) | Inr g \<Rightarrow>
           case alloc h7 (VecArr g) of (h8, g1) \<Rightarrow>
           case alloc h8 (VecArr g) of (h9, g2) \<Rightarrow>
           case lag_loop_h h9 mxs mys aSx aSy [1..frame_m - 1] (None, None) of
             (h10, Inl e) \<Rightarrow> (h10, Inl e)
           | (h10, Inr (Some Mxa, Some Mya)) \<Rightarrow>
               (case ma_add_vec Mya Mxa of
                  Inl e \<Rightarrow> (h10, Inl e)
                | Inr s \<Rightarrow> (h10, np_ma_mean_axix (map ma_log s)))
           | (h10, Inr _) \<Rightarrow> (h10, Inl NameError))
      | _ \<Rightarrow> (h3, Inl TypeError))"

section \<open>Notions used to state the properties of the assembler\<close>

text \<open>
  The concatenated record set that \<open>MSD_iteration\<close> builds from the sessions (its
  \<^verbatim>\<open>placeholder\<close>), and the largest particle id in it (its \<^verbatim>\<open>total\<close>).
\<close>

definition placeholder_of :: "point list list \<Rightarrow> point list" where
  "placeholder_of trajectory =
     (case read_sessions trajectory [0] 0 of
        Inl e \<Rightarrow> []
      | Inr (newtots, frames) \<Rightarrow> shift_ids trajectory newtots)"

definition total_of :: "int list \<Rightarrow> int" where
  "total_of particles = (case py_max particles of Inl e \<Rightarrow> 0 | Inr t \<Rightarrow> t)"

text \<open>
  For a particle with at least one record: the indices of its first and last record in
  the concatenated record set (the loop's \<^verbatim>\<open>min1\<close> and \<^verbatim>\<open>max1\<close>), their difference,
  and the rows between them, which the loop hands to \<open>fillin2\<close>.
\<close>

definition first_index :: "int list \<Rightarrow> int \<Rightarrow> int" where
  "first_index particles num = hd (itindex particles num)"

definition last_index :: "int list \<Rightarrow> int \<Rightarrow> int" where
  "last_index particles num = last (itindex particles num)"

definition index_span :: "int list \<Rightarrow> int \<Rightarrow> int" where
  "index_span particles num = last_index particles num - first_index particles num"

definition particle_rows :: "point list \<Rightarrow> int list \<Rightarrow> int \<Rightarrow> point list" where
  "particle_rows fixed particles num =
     py_slice fixed (first_index particles num) (last_index particles num + 1)"


definition dropped :: "int list \<Rightarrow> int \<Rightarrow> int list" where
  "dropped particles cutoff =
     filter (\<lambda>num. index_span particles num < cutoff) [1..total_of particles]"

text \<open>
  A filled trajectory \<open>hp\<close> occupies column \<open>j\<close> of the four returned matrices: the
  absolute matrices hold it from the row of its first frame on, the relative matrices from
  row 0 on, and the matrices have the rows for it.
\<close>

definition occupies :: "point list \<Rightarrow> nat \<Rightarrow> assembly \<Rightarrow> bool" where
  "occupies hp j res =
     (case res of (total1, xs_m, ys_m, x_m, y_m) \<Rightarrow>
        nat (frame (hd hp)) + length hp \<le> length x_m
        \<and> nat (frame (hd hp)) + length hp \<le> length y_m
        \<and> length hp \<le> length xs_m \<and> length hp \<le> length ys_m \<and>
        list_all (\<lambda>i. x_m ! (nat (frame (hd hp)) + i) ! j = xpos (hp ! i)
                    \<and> y_m ! (nat (frame (hd hp)) + i) ! j = ypos (hp ! i)
                    \<and> xs_m ! i ! j = xpos (hp ! i)
                    \<and> ys_m ! i ! j = ypos (hp ! i)) [0..<length hp])"

text \<open>Two notions for the proofs: a matrix of \<open>R\<close> rows and \<open>C\<close> columns, and the
  effect of a successful column assignment \<^verbatim>\<open>M[a:a+len(vals), c] = vals\<close>.\<close>

definition has_shape :: "nat \<Rightarrow> nat \<Rightarrow> matrix \<Rightarrow> bool" where
  "has_shape R C M = (length M = R \<and> list_all (\<lambda>row. length row = C) M)"

definition col_write :: "matrix \<Rightarrow> nat \<Rightarrow> nat \<Rightarrow> real list \<Rightarrow> matrix" where
  "col_write M a c vals =
     map (\<lambda>r. if a \<le> r \<and> r < a + length vals then (M ! r)[c := vals ! (r - a)] else M ! r)
       [0..<length M]"

section \<open>Definitions that follow the specification's words\<close>

text \<open>
  The specification's per-lag mean: for each particle the squared displacements
  \<open>(pos[t + lag] - pos[t])\<^sup>2\<close> over the start frames \<open>t\<close> in \<open>[0, frame_count - lag)\<close>,
  reduced by the masked mean.
\<close>

definition spec_lag_mean :: "mmatrix \<Rightarrow> nat \<Rightarrow> nat \<Rightarrow> mvec" where
  "spec_lag_mean m n lag =
     map (\<lambda>p. ma_mean (map (\<lambda>t. ma_sq (ma_sub (m ! (t + lag) ! p) (m ! t ! p)))
                         [0..<length m - lag])) [0..<n]"

text \<open>The specification's rejection rule for the filler: empty input, a consecutive pair
  of frames that is equal or decreasing, or more than one particle id.\<close>

definition spec_fill_rejects :: "point list \<Rightarrow> bool" where
  "spec_fill_rejects data =
     (data = [] \<or> list_ex (\<lambda>d. d \<le> 0) (np_diff (map frame data))
      \<or> 1 < length (remdups (map track data)))"

text \<open>The specification's span of a particle: its last observed frame minus its first
  observed frame.\<close>

definition frame_span :: "point list \<Rightarrow> int \<Rightarrow> int" where
  "frame_span records num =
     frame (last (filter (\<lambda>p. track p = num) records))
       - frame (hd (filter (\<lambda>p. track p = num) records))"

definition spec_survivors :: "point list \<Rightarrow> int \<Rightarrow> int list" where
  "spec_survivors records cutoff =
     filter (\<lambda>num. cutoff \<le> frame_span records num) [1..total_of (map track records)]"

section \<open>Properties of the trajectory filler\<close>

text \<open>The frame assertion of line 59 holds exactly for the non-decreasing frame columns.\<close>

lemma np_diff_sorted: "list_all (\<lambda>d. d = \<bar>d\<bar>) (np_diff fs) = sorted fs"
proof (induction fs rule: np_diff.induct)
  case (1 a b vs)
  have "sorted (a # b # vs) = (a \<le> b \<and> sorted (b # vs))" by auto
  with 1 show ?case by auto
qed simp_all

lemma fold_max_Max: "fold max vs (v::int) = Max (set (v # vs))"
  using Max.set_eq_fold[of v vs] by simp

lemma fold_min_Min: "fold min vs (v::int) = Min (set (v # vs))"
  using Min.set_eq_fold[of v vs] by simp

lemma sorted_Min_hd: "sorted (fs::int list) \<Longrightarrow> fs \<noteq> [] \<Longrightarrow> Min (set fs) = hd fs"
  by (cases fs) (auto intro!: Min_eqI)

lemma sorted_Max_last: "sorted (fs::int list) \<Longrightarrow> fs \<noteq> [] \<Longrightarrow> Max (set fs) = last fs"
proof -
  assume s: "sorted fs" and n: "fs \<noteq> []"
  have "\<forall>v \<in> set fs. v \<le> last fs"
  proof
    fix v assume "v \<in> set fs"
    then obtain i where i: "i < length fs" "fs ! i = v" by (auto simp: in_set_conv_nth)
    with s n have "fs ! i \<le> fs ! (length fs - 1)" by (intro sorted_nth_mono) auto
    with i n show "v \<le> last fs" by (simp add: last_conv_nth)
  qed
  with n show ?thesis by (intro Max_eqI) auto
qed

lemma fill_loop_frames:
  assumes "sorted frames" "frames = map frame data" "data \<noteq> []"
    "length filledin = N" "\<forall>j<N. frame (filledin ! j) = hd frames + int j"
    "last frames = hd frames + int N - 1"
    "1 \<le> k" "k \<le> N"
    "0 \<le> int k - new - 1" "int k - new - 1 \<le> int (length data)"
    "0 < int k - new - 1 \<longrightarrow> frames ! nat (int k - new - 2) < hd frames + int k"
  shows "\<exists>out. fill_loop data frames [k..<N] (count, new, other, tot) filledin = Inr out
           \<and> length out = N \<and> map frame out = map frame filledin"
  using assms
proof (induction "N - k" arbitrary: k new count other tot filledin)
  case 0
  then show ?case by simp
next
  case (Suc d)
  let ?c = "int k - new - 1"
  let ?lo = "hd frames"
  have kN: "k < N" using Suc.hyps(2) by arith
  have n: "length frames = length data" using Suc.prems(2) by simp
  have fne: "frames \<noteq> []" using Suc.prems(2,3) by simp
  have lastn: "last frames = frames ! (length data - 1)"
    using fne n by (simp add: last_conv_nth)
  have c_lt: "?c < int (length data)"
  proof (rule ccontr)
    assume "\<not> ?c < int (length data)"
    with Suc.prems(10) have ceq: "?c = int (length data)" by simp
    with Suc.prems(3) have "0 < ?c" by simp
    with Suc.prems(11) have "frames ! nat (int k - new - 2) < ?lo + int k" by simp
    moreover have "nat (int k - new - 2) = length data - 1" using ceq by simp
    ultimately have "last frames < ?lo + int k" using lastn by simp
    with Suc.prems(6) kN show False by simp
  qed
  have cur: "py_index filledin (int k) = Inr (filledin ! k)"
    using kN Suc.prems(4) by (simp add: py_index_def)
  have fcur: "frame (filledin ! k) = ?lo + int k" using Suc.prems(5) kN by simp
  have fidx: "py_index frames ?c = Inr (frames ! nat ?c)"
    using c_lt Suc.prems(9) n by (simp add: py_index_def)
  have upt: "[k..<N] = k # [Suc k..<N]" using kN by (simp add: upt_conv_Cons)
  define f where "f = frames ! nat ?c"
  define new' where "new' = (if frame (filledin ! k) - f = 0 then new
        else if frame (filledin ! k) - f < 0 then new + 1 else new)"
  define count' where "count' = (if frame (filledin ! k) - f = 0 then count + 1 else count)"
  define other' where "other' = (if frame (filledin ! k) - f = 0 then other
        else if frame (filledin ! k) - f < 0 then other else other + 1)"
  have hd0: "frames ! 0 = ?lo" using fne by (simp add: hd_conv_nth)
  have idx_ok: "0 \<le> int k - new' - 1 \<and> int k - new' - 1 < int (length data)"
  proof (cases "frame (filledin ! k) - f < 0")
    case True
    then have nn: "new' = new + 1" by (simp add: new'_def)
    have "?c \<noteq> 0"
    proof
      assume "?c = 0"
      then have "f = ?lo" using hd0 by (simp add: f_def)
      with True fcur show False by simp
    qed
    with Suc.prems(9) c_lt nn show ?thesis by simp
  next
    case False
    then have "new' = new" by (auto simp: new'_def)
    with Suc.prems(9) c_lt show ?thesis by simp
  qed
  define src where "src = data ! nat (int k - new' - 1)"
  have sidx: "py_index data (int k - new' - 1) = Inr src"
    using idx_ok by (simp add: py_index_def src_def)
  define filledin' where "filledin' = filledin[k := copy_fields (filledin ! k) src]"
  have step: "fill_loop data frames [k..<N] (count, new, other, tot) filledin
      = fill_loop data frames [Suc k..<N] (count', new', other', count' + new' + other') filledin'"
    using sidx unfolding upt filledin'_def src_def new'_def count'_def other'_def f_def
    by (auto simp: cur fidx Let_def)
  have len': "length filledin' = N" using Suc.prems(4) by (simp add: filledin'_def)
  have fr': "map frame filledin' = map frame filledin"
    using kN Suc.prems(4) by (intro nth_equalityI) (auto simp: filledin'_def nth_list_update copy_fields_def)
  have frj: "\<forall>j<N. frame (filledin' ! j) = ?lo + int j"
    using Suc.prems(5) kN Suc.prems(4) by (auto simp: filledin'_def nth_list_update copy_fields_def)
  have inv1: "0 \<le> int (Suc k) - new' - 1" using idx_ok by simp
  have inv2: "int (Suc k) - new' - 1 \<le> int (length data)" using idx_ok by simp
  have inv3: "0 < int (Suc k) - new' - 1 \<longrightarrow>
      frames ! nat (int (Suc k) - new' - 2) < ?lo + int (Suc k)"
  proof (cases "frame (filledin ! k) - f < 0")
    case True
    then have nn: "new' = new + 1" by (simp add: new'_def)
    have e: "int (Suc k) - new' - 2 = int k - new - 2" using nn by simp
    show ?thesis unfolding e using Suc.prems(11) nn by auto
  next
    case False
    then have nn: "new' = new" by (auto simp: new'_def)
    have e: "nat (int (Suc k) - new' - 2) = nat ?c" using nn by simp
    have "f \<le> ?lo + int k" using False fcur by simp
    then show ?thesis unfolding e f_def by simp
  qed
  have "\<exists>out. fill_loop data frames [Suc k..<N] (count', new', other', count' + new' + other')
      filledin' = Inr out \<and> length out = N \<and> map frame out = map frame filledin'"
  proof (rule Suc.hyps(1))
    show "d = N - Suc k" using Suc.hyps(2) by simp
    show "Suc k \<le> N" using kN by simp
  qed (use Suc.prems len' frj inv1 inv2 inv3 in simp_all)
  then show ?case using step fr' by simp
qed


lemma linspace_unit: "0 \<le> hi - lo \<Longrightarrow> linspace lo hi (hi - lo + 1) = map (\<lambda>k. lo + int k) [0..<nat (hi - lo + 1)]"
proof (cases "hi = lo")
  case True
  then show ?thesis by (simp add: linspace_def)
next
  case False
  assume "0 \<le> hi - lo"
  with False have "(hi - lo) div (hi - lo + 1 - 1) = 1" by simp
  then show ?thesis by (simp add: linspace_def)
qed

lemma upto_as_map: "[lo..hi] = map (\<lambda>k. lo + int k) [0..<nat (hi - lo + 1)]"
proof (induction "nat (hi - lo + 1)" arbitrary: hi)
  case 0
  then show ?case by simp
next
  case (Suc n)
  then have le: "lo \<le> hi" by simp
  have n: "n = nat (hi - 1 - lo + 1)" using Suc.hyps(2) by simp
  have "[lo..hi] = [lo..hi - 1] @ [hi]" using le by (simp add: upto_rec2)
  also have "[lo..hi - 1] = map (\<lambda>k. lo + int k) [0..<n]" using Suc.hyps(1)[OF n] n by simp
  finally show ?case using Suc.hyps(2)[symmetric] le by simp
qed

lemma fillin2_frames:
  assumes ne: "data \<noteq> []" and srt: "sorted (map frame data)"
  shows "\<exists>out. fillin2 data = Inr out
           \<and> length out = nat (last (map frame data) - hd (map frame data) + 1)
           \<and> map frame out = [hd (map frame data)..last (map frame data)]"
proof -
  let ?fs = "map frame data"
  let ?lo = "hd ?fs" and ?hi = "last ?fs"
  let ?N = "nat (?hi - ?lo + 1)"
  have fne: "?fs \<noteq> []" using ne by simp
  obtain d ds where dd: "data = d # ds" using ne by (cases data) auto
  have mx: "py_max ?fs = Inr ?hi"
    using sorted_Max_last[OF srt fne] by (simp add: dd fold_max_Max del: last.simps)
  have mn: "py_min ?fs = Inr ?lo"
    using sorted_Min_hd[OF srt fne] by (simp add: dd fold_min_Min)
  have lohi: "?lo \<le> ?hi"
    using sorted_Min_hd[OF srt fne] sorted_Max_last[OF srt fne] fne
    by (metis List.finite_set Max_ge Min_le hd_in_set order_trans set_empty)
  have z: "np_zeros (?hi + 1 - ?lo) zero_point = Inr (replicate ?N zero_point)"
    using lohi by (simp add: np_zeros_def add.commute)
  have i0: "py_index data 0 = Inr d" by (simp add: py_index_def dd)
  have Npos: "0 < ?N" using lohi by simp
  have st: "py_store (replicate ?N zero_point) 0 d = Inr ((replicate ?N zero_point)[0 := d])"
    using Npos by (simp add: py_store_def)
  define init where "init = map2 (\<lambda>r f. r\<lparr>frame := f\<rparr>) ((replicate ?N zero_point)[0 := d])
      (map (\<lambda>k. ?lo + int k) [0..<?N])"
  have e2: "?hi + 1 - ?lo = ?hi - ?lo + 1" by simp
  have ls: "linspace ?lo (?hi + 1 - 1) (?hi + 1 - ?lo) = map (\<lambda>k. ?lo + int k) [0..<?N]"
  proof -
    have ls0: "linspace ?lo ?hi (?hi - ?lo + 1) = map (\<lambda>k. ?lo + int k) [0..<?N]"
      by (rule linspace_unit) (use lohi in simp)
    have e1: "?hi + 1 - 1 = ?hi" by simp
    show ?thesis by (simp only: e1 e2 ls0)
  qed
  have leninit: "length init = ?N" by (simp add: init_def)
  have frinit: "\<forall>j<?N. frame (init ! j) = ?lo + int j"
    by (simp add: init_def)
  have pre1: "list_all (\<lambda>d. d = \<bar>d\<bar>) (np_diff ?fs)" using srt by (simp add: np_diff_sorted)
  have pre2: "0 < length data" using ne by simp
  have N2: "nat (?hi + 1 - ?lo) = ?N" by simp
  have unfold: "fillin2 data = fill_loop data ?fs [1..<?N] (0, 0, 0, 0) init"
    unfolding fillin2_def Let_def init_def
    by (simp only: pre1 pre2 not_True_eq_False if_False mx mn ebind_def sum.case z i0 st ls N2)
  have "\<exists>out. fill_loop data ?fs [1..<?N] (0, 0, 0, 0) init = Inr out
           \<and> length out = ?N \<and> map frame out = map frame init"
    by (rule fill_loop_frames[OF srt refl ne leninit frinit]) (use lohi Npos in auto)
  moreover have "map frame init = [?lo..?hi]"
    unfolding upto_as_map by (rule nth_equalityI) (use leninit frinit in auto)
  ultimately show ?thesis using unfold by auto
qed

text \<open>
  The array printed in the docstring of \<^verbatim>\<open>fillin2\<close> is what the model returns for the
  trajectory with frames and coordinates 0, 2, ..., 10: an observed frame keeps its own
  values and a missing frame repeats the values of the frame before it.
\<close>

lemma fillin2_docstring_example:
  "fillin2 [\<lparr>track = 1, frame = 0, xpos = 0, ypos = 0, zpos = 0\<rparr>,
            \<lparr>track = 1, frame = 2, xpos = 2, ypos = 2, zpos = 0\<rparr>,
            \<lparr>track = 1, frame = 4, xpos = 4, ypos = 4, zpos = 0\<rparr>,
            \<lparr>track = 1, frame = 6, xpos = 6, ypos = 6, zpos = 0\<rparr>,
            \<lparr>track = 1, frame = 8, xpos = 8, ypos = 8, zpos = 0\<rparr>,
            \<lparr>track = 1, frame = 10, xpos = 10, ypos = 10, zpos = 0\<rparr>]
     = Inr [\<lparr>track = 1, frame = 0, xpos = 0, ypos = 0, zpos = 0\<rparr>,
            \<lparr>track = 1, frame = 1, xpos = 0, ypos = 0, zpos = 0\<rparr>,
            \<lparr>track = 1, frame = 2, xpos = 2, ypos = 2, zpos = 0\<rparr>,
            \<lparr>track = 1, frame = 3, xpos = 2, ypos = 2, zpos = 0\<rparr>,
            \<lparr>track = 1, frame = 4, xpos = 4, ypos = 4, zpos = 0\<rparr>,
            \<lparr>track = 1, frame = 5, xpos = 4, ypos = 4, zpos = 0\<rparr>,
            \<lparr>track = 1, frame = 6, xpos = 6, ypos = 6, zpos = 0\<rparr>,
            \<lparr>track = 1, frame = 7, xpos = 6, ypos = 6, zpos = 0\<rparr>,
            \<lparr>track = 1, frame = 8, xpos = 8, ypos = 8, zpos = 0\<rparr>,
            \<lparr>track = 1, frame = 9, xpos = 8, ypos = 8, zpos = 0\<rparr>,
            \<lparr>track = 1, frame = 10, xpos = 10, ypos = 10, zpos = 0\<rparr>]"
  by code_simp

lemma decreasing_pair_fails: "list_ex (\<lambda>d. d < 0) ds \<Longrightarrow> \<not> list_all (\<lambda>d. d = \<bar>d\<bar>) (ds::int list)"
  by (induction ds) auto

lemma increasing_is_sorted: "list_all (\<lambda>d. 0 < d) (np_diff fs) \<Longrightarrow> sorted fs"
proof -
  assume "list_all (\<lambda>d. 0 < d) (np_diff fs)"
  then have "list_all (\<lambda>d. d = \<bar>d\<bar>) (np_diff fs)"
    by (induction "np_diff fs" arbitrary: fs) (auto simp: list_all_iff)
  then show ?thesis by (simp add: np_diff_sorted)
qed

text \<open>
  C6. For a non-empty trajectory whose frames pass the assertion of line 59 (they never
  decrease), \<open>fillin2\<close> returns an array with exactly \<open>max_frame - min_frame + 1\<close> rows whose
  frame column is the ascending range of all integers from \<open>min_frame\<close> to \<open>max_frame\<close>.
\<close>

theorem fillin2_frame_range:
  assumes "data \<noteq> []" and "sorted (map frame data)"
  shows "\<exists>out. fillin2 data = Inr out
           \<and> int (length out) = Max (set (map frame data)) - Min (set (map frame data)) + 1
           \<and> map frame out = [Min (set (map frame data))..Max (set (map frame data))]"
proof -
  have ne: "map frame data \<noteq> []" using assms(1) by simp
  have lo: "Min (set (map frame data)) = hd (map frame data)"
    by (rule sorted_Min_hd[OF assms(2) ne])
  have hi: "Max (set (map frame data)) = last (map frame data)"
    by (rule sorted_Max_last[OF assms(2) ne])
  obtain out where out: "fillin2 data = Inr out"
    "length out = nat (last (map frame data) - hd (map frame data) + 1)"
    "map frame out = [hd (map frame data)..last (map frame data)]"
    using fillin2_frames[OF assms] by blast
  have "hd (map frame data) \<le> last (map frame data)"
    using lo hi ne by (metis List.finite_set Max_ge Min_le hd_in_set order_trans)
  then have "int (length out) = last (map frame data) - hd (map frame data) + 1"
    using out(2) by simp
  then show ?thesis using out(1,3) lo hi by simp
qed

text \<open>The theorem at the trajectory with frames 3, 5 and 6.\<close>

theorem fillin2_frame_range_witness:
  "[\<lparr>track = 1, frame = 3, xpos = 1, ypos = 2, zpos = 0\<rparr>,
    \<lparr>track = 1, frame = 5, xpos = 4, ypos = 6, zpos = 0\<rparr>,
    \<lparr>track = 1, frame = 6, xpos = 7, ypos = 8, zpos = 0\<rparr>] \<noteq> []
   \<and> sorted [3, 5, 6 :: int]
   \<and> (\<exists>out. fillin2 [\<lparr>track = 1, frame = 3, xpos = 1, ypos = 2, zpos = 0\<rparr>,
                      \<lparr>track = 1, frame = 5, xpos = 4, ypos = 6, zpos = 0\<rparr>,
                      \<lparr>track = 1, frame = 6, xpos = 7, ypos = 8, zpos = 0\<rparr>] = Inr out
          \<and> int (length out) = 4 \<and> map frame out = [3..6])"
  using fillin2_frame_range[of "[\<lparr>track = 1, frame = 3, xpos = 1, ypos = 2, zpos = 0\<rparr>,
    \<lparr>track = 1, frame = 5, xpos = 4, ypos = 6, zpos = 0\<rparr>,
    \<lparr>track = 1, frame = 6, xpos = 7, ypos = 8, zpos = 0\<rparr>]"]
  by simp

text \<open>
  C2 (the code departs from the claim). A dense trajectory is not returned unchanged: the
  loop starts its cursor one row early, so until the first gap every output row after row
  0 carries the values of the input row before it. For the dense two-frame trajectory the
  second output row repeats the first observation and the second observation is lost.
\<close>

theorem fillin2_dense_shifted:
  "fillin2 [\<lparr>track = 1, frame = 0, xpos = 10, ypos = 11, zpos = 0\<rparr>,
            \<lparr>track = 1, frame = 1, xpos = 20, ypos = 21, zpos = 0\<rparr>]
     = Inr [\<lparr>track = 1, frame = 0, xpos = 10, ypos = 11, zpos = 0\<rparr>,
            \<lparr>track = 1, frame = 1, xpos = 10, ypos = 11, zpos = 0\<rparr>]"
  by code_simp

text \<open>
  C3, as stated, fails: a trajectory that mixes two particle ids is rejected by the
  specification's rule and accepted by \<open>fillin2\<close>, which never looks at the ids.
\<close>

theorem fillin2_mixed_ids_counterexample:
  "spec_fill_rejects [\<lparr>track = 1, frame = 0, xpos = 1, ypos = 1, zpos = 0\<rparr>,
                      \<lparr>track = 2, frame = 1, xpos = 2, ypos = 2, zpos = 0\<rparr>]
   \<and> fillin2 [\<lparr>track = 1, frame = 0, xpos = 1, ypos = 1, zpos = 0\<rparr>,
              \<lparr>track = 2, frame = 1, xpos = 2, ypos = 2, zpos = 0\<rparr>]
       = Inr [\<lparr>track = 1, frame = 0, xpos = 1, ypos = 1, zpos = 0\<rparr>,
              \<lparr>track = 1, frame = 1, xpos = 1, ypos = 1, zpos = 0\<rparr>]"
  by code_simp

text \<open>
  C3, amended. \<open>fillin2\<close> fails with an assertion error when its input is empty and when
  some consecutive pair of frames decreases; it makes no check of the particle ids; and for
  every non-empty input whose frames strictly increase it succeeds, with the frame column
  of the output running in ascending order from the first input frame to the last.
\<close>

theorem fillin2_validation:
  "(data = [] \<longrightarrow> fillin2 data = Inl (AssertionError ''Array must not be empty.''))
   \<and> (list_ex (\<lambda>d. d < 0) (np_diff (map frame data))
        \<longrightarrow> fillin2 data = Inl (AssertionError ''Frames must all increase.''))
   \<and> (data \<noteq> [] \<and> list_all (\<lambda>d. 0 < d) (np_diff (map frame data))
        \<longrightarrow> (\<exists>out. fillin2 data = Inr out
               \<and> map frame out = [frame (hd data)..frame (last data)]))"
proof (intro conjI impI)
  assume "data = []"
  then show "fillin2 data = Inl (AssertionError ''Array must not be empty.'')"
    by (simp add: fillin2_def)
next
  assume "list_ex (\<lambda>d. d < 0) (np_diff (map frame data))"
  then have "\<not> list_all (\<lambda>d. d = \<bar>d\<bar>) (np_diff (map frame data))"
    by (rule decreasing_pair_fails)
  then show "fillin2 data = Inl (AssertionError ''Frames must all increase.'')"
    by (simp add: fillin2_def)
next
  assume a: "data \<noteq> [] \<and> list_all (\<lambda>d. 0 < d) (np_diff (map frame data))"
  then have "sorted (map frame data)" by (simp add: increasing_is_sorted)
  with a obtain out where "fillin2 data = Inr out"
    "map frame out = [hd (map frame data)..last (map frame data)]"
    using fillin2_frames by blast
  then show "\<exists>out. fillin2 data = Inr out \<and> map frame out = [frame (hd data)..frame (last data)]"
    using a by (simp add: hd_map last_map)
qed

text \<open>The theorem at the empty input, at a decreasing pair and at a strictly increasing
  trajectory of two particle ids.\<close>

theorem fillin2_validation_witness:
  "fillin2 [] = Inl (AssertionError ''Array must not be empty.'')
   \<and> list_ex (\<lambda>d. d < 0) (np_diff [2, 1 :: int])
   \<and> fillin2 [\<lparr>track = 1, frame = 2, xpos = 1, ypos = 1, zpos = 0\<rparr>,
              \<lparr>track = 1, frame = 1, xpos = 2, ypos = 2, zpos = 0\<rparr>]
       = Inl (AssertionError ''Frames must all increase.'')
   \<and> list_all (\<lambda>d. 0 < d) (np_diff [0, 2 :: int])
   \<and> (\<exists>out. fillin2 [\<lparr>track = 1, frame = 0, xpos = 1, ypos = 1, zpos = 0\<rparr>,
                      \<lparr>track = 2, frame = 2, xpos = 2, ypos = 2, zpos = 0\<rparr>] = Inr out
          \<and> map frame out = [0..2])"
  using fillin2_validation[of "[]"]
    fillin2_validation[of "[\<lparr>track = 1, frame = 2, xpos = 1, ypos = 1, zpos = 0\<rparr>,
                             \<lparr>track = 1, frame = 1, xpos = 2, ypos = 2, zpos = 0\<rparr>]"]
    fillin2_validation[of "[\<lparr>track = 1, frame = 0, xpos = 1, ypos = 1, zpos = 0\<rparr>,
                             \<lparr>track = 2, frame = 2, xpos = 2, ypos = 2, zpos = 0\<rparr>]"]
  by simp

section \<open>Properties of the statistics engine\<close>

text \<open>The engine returns on no input: every path through it ends in an exception.\<close>

lemma vectorized_never_returns:
  "\<exists>e. vectorized_MMSD_calcs frames total1 xs_m ys_m x_m y_m frame_m = Inl e"
  by (auto simp: vectorized_MMSD_calcs_def ebind_def np_ma_mean_axix_def Let_def
      split: sum.splits option.splits prod.splits)

lemmas engine_eval = vectorized_MMSD_calcs_def ebind_def np_ma_mean_axix_def Let_def
  np_zeros2_def np_zeros_def masked_equal_def upto.simps lag_step_def lag_mean_def
  py_index_def py_slice_def slice_index_def ma_mean_axis0_def ma_mean_def unmasked_def
  assign_row_def filled_def py_store_def ma_add_vec_def



lemma sq_sub_masked:
  "ma_sq (ma_sub (if b = 0 then None else Some b) (if c = 0 then None else Some c))
     = (if b \<noteq> 0 \<and> c \<noteq> 0 then Some ((b - c) ^ 2) else None)"
  by simp


text \<open>
  C1 (the code departs from the claim). At lag \<open>\<tau>\<close> the code subtracts every row
  \<open>t < frame_count - \<tau>\<close> from the single row \<open>\<tau>\<close>, so it averages \<open>(pos[\<tau>] - pos[t])\<^sup>2\<close>
  and not \<open>(pos[t + \<tau>] - pos[t])\<^sup>2\<close>. For one particle at positions 1, 2, 4 and lag 1 the
  code averages \<open>(2 - 1)\<^sup>2\<close> and \<open>(2 - 2)\<^sup>2\<close>, the claim \<open>(2 - 1)\<^sup>2\<close> and \<open>(4 - 2)\<^sup>2\<close>.
\<close>

theorem lag_mean_fixed_row:
  "lag_mean (masked_equal [[1], [2], [4]] 0) 1 = Inr [Some (1 / 2)]
   \<and> spec_lag_mean (masked_equal [[1], [2], [4]] 0) 1 1 = [Some (5 / 2)]"
  by code_simp

text \<open>
  C7 (the code departs from the claim). On an input on which every earlier line succeeds
  (three frames, one particle, \<open>total1 = 2\<close>, so that the accumulators have one column),
  the engine raises \<^verbatim>\<open>TypeError\<close> at line 268 instead of returning statistics.
\<close>

theorem vectorized_raises_type_error:
  "vectorized_MMSD_calcs 3 2 [[1], [2], [4]] [[1], [3], [4]] [[1], [2], [4]] [[1], [3], [4]] 3
     = Inl TypeError"
  by (simp add: engine_eval)



text \<open>
  C10, as stated, fails: with a single surviving particle (\<open>total1 = 1\<close>, one column) the
  accumulators have no column, numpy broadcasts the one-element row into the empty row, and
  the row assignments succeed; the call then fails at line 268 with \<^verbatim>\<open>TypeError\<close>.
\<close>

theorem row_assignment_counterexample:
  "vectorized_MMSD_calcs 2 1 [[1], [2]] [[1], [3]] [[1], [2]] [[1], [3]] 2 = Inl TypeError"
  by (simp add: engine_eval)

text \<open>
  C10, amended. When \<open>total1\<close> is at least 2 and equals the column count of the relative
  x matrix, the accumulators have at least two rows (\<open>frames \<ge> 2\<close>), both relative matrices
  have at least two rows and \<open>frame_m \<ge> 2\<close>, the first per-lag row assignment fails with
  a broadcast error and no statistics are returned.
\<close>

theorem row_assignment_fails:
  assumes "2 \<le> total1" and "2 \<le> frames" and "2 \<le> frame_m"
    and "2 \<le> length xs_m" and "2 \<le> length ys_m"
    and "\<forall>row\<in>set xs_m. length row = nat total1"
  shows "vectorized_MMSD_calcs frames total1 xs_m ys_m x_m y_m frame_m
           = Inl (ValueError CannotBroadcast)"
proof -
  let ?Z = "replicate (nat frames) (replicate (nat (total1 - 1)) (0::real))"
  have z: "np_zeros2 frames (total1 - 1) = Inr ?Z" using assms(1,2) by (simp add: np_zeros2_def)
  have g: "np_zeros frame_m (0::real) = Inr (replicate (nat frame_m) 0)"
    using assms(3) by (simp add: np_zeros_def)
  have lags: "[1..frame_m - 1] = 1 # [2..frame_m - 1]" using assms(3) by (simp add: upto.simps)
  obtain Mxa where mx: "lag_mean (masked_equal xs_m 0) 1 = Inr Mxa" "length Mxa = nat total1"
    using assms(4,6) by (simp add: lag_mean_def py_index_def masked_equal_def ebind_def Let_def ma_mean_axis0_def)
  obtain Mya where my: "lag_mean (masked_equal ys_m 0) 1 = Inr Mya"
    using assms(5) by (simp add: lag_mean_def py_index_def masked_equal_def ebind_def Let_def)
  have n1: "length Mxa \<noteq> nat (total1 - 1)" "length Mxa \<noteq> 1" using assms(1) mx(2) by auto
  have row1: "py_index ?Z 1 = Inr (replicate (nat (total1 - 1)) 0)"
    using assms(2) by (simp add: py_index_def)
  have ar: "assign_row ?Z 1 Mxa = Inl (ValueError CannotBroadcast)"
    using n1 by (simp add: assign_row_def row1 ebind_def)
  have "lag_step (masked_equal xs_m 0) (masked_equal ys_m 0) 1 (None, None, ?Z, ?Z)
      = Inl (ValueError CannotBroadcast)"
    by (simp add: lag_step_def mx my ar ebind_def)
  then show ?thesis
    by (simp add: vectorized_MMSD_calcs_def z g lags ebind_def Let_def)
qed

text \<open>The theorem at two particles, three frames and \<open>total1 = 2\<close>.\<close>

theorem row_assignment_fails_witness:
  "(2::int) \<le> 2 \<and> (2::int) \<le> 3 \<and> (2::int) \<le> 3
   \<and> 2 \<le> length [[1, 1], [2, 1], [4, 1 :: real]]
   \<and> list_all (\<lambda>row. length row = nat 2) [[1, 1], [2, 1], [4, 1 :: real]]
   \<and> vectorized_MMSD_calcs 3 2 [[1, 1], [2, 1], [4, 1]] [[1, 1], [2, 1], [4, 1]]
        [[1, 1], [2, 1], [4, 1]] [[1, 1], [2, 1], [4, 1]] 3 = Inl (ValueError CannotBroadcast)"
  using row_assignment_fails[of 2 3 3 "[[1, 1], [2, 1], [4, 1]]" "[[1, 1], [2, 1], [4, 1]]"
      "[[1, 1], [2, 1], [4, 1]]" "[[1, 1], [2, 1], [4, 1]]"]
  by simp

section \<open>Properties of the assembler\<close>

lemma itindex_sorted: "sorted (itindex P num)"
proof -
  have "sorted (map int (filter (\<lambda>i. P ! i = num) [0..<length P]))"
    by (simp add: sorted_map sorted_wrt_filter)
  then show ?thesis by (simp add: itindex_def)
qed

lemma itindex_range:
  "i \<in> set (itindex P num) \<Longrightarrow> 0 \<le> i \<and> i < int (length P) \<and> P ! nat i = num"
  by (auto simp: itindex_def)

lemma itindex_nonempty: "itindex P num \<noteq> [] \<longleftrightarrow> num \<in> set P"
  by (auto simp: itindex_def filter_empty_conv in_set_conv_nth)

lemma py_min_sorted: "sorted vs \<Longrightarrow> vs \<noteq> [] \<Longrightarrow> py_min vs = Inr (hd vs)"
  using sorted_Min_hd[of vs] by (cases vs) (simp_all add: fold_min_Min del: sorted_wrt.simps)

lemma py_max_sorted: "sorted vs \<Longrightarrow> vs \<noteq> [] \<Longrightarrow> py_max vs = Inr (last vs)"
  using sorted_Max_last[of vs] by (cases vs) (simp_all add: fold_max_Max del: sorted_wrt.simps last.simps)

lemma py_min_Inr: "py_min vs = Inr m \<Longrightarrow> vs \<noteq> []"
  by (cases vs) auto

lemma place_particle_Inr:
  assumes "place_particle F P c num (nones, x, y, xs, ys) = Inr st'"
  shows "itindex P num \<noteq> []"
    and "index_span P num < c \<Longrightarrow> st' = (nones + 1, x, y, xs, ys)"
    and "c \<le> index_span P num \<Longrightarrow>
           \<exists>hp. fillin2 (particle_rows F P num) = Inr hp
                \<and> scatter hp (num - nones - 1) (nones, x, y, xs, ys) = Inr st'"
proof -
  show ne: "itindex P num \<noteq> []"
    using assms by (auto simp: place_particle_def ebind_def split: sum.splits dest: py_min_Inr)
  have mn: "py_min (itindex P num) = Inr (first_index P num)"
    using py_min_sorted[OF itindex_sorted ne] by (simp add: first_index_def)
  have mx: "py_max (itindex P num) = Inr (last_index P num)"
    using py_max_sorted[OF itindex_sorted ne] by (simp add: last_index_def)
  show "index_span P num < c \<Longrightarrow> st' = (nones + 1, x, y, xs, ys)"
    using assms by (simp add: place_particle_def ebind_def mn mx index_span_def)
  show "c \<le> index_span P num \<Longrightarrow>
           \<exists>hp. fillin2 (particle_rows F P num) = Inr hp
                \<and> scatter hp (num - nones - 1) (nones, x, y, xs, ys) = Inr st'"
    using assms
    by (auto simp: place_particle_def ebind_def mn mx index_span_def particle_rows_def
        split: sum.splits)
qed

lemma upto_hd_last:
  assumes "lo \<le> hi"
  shows "hd [lo..hi] = lo" "last [lo..hi] = hi" "[lo..hi] \<noteq> []"
proof -
  show "hd [lo..hi] = lo" by (subst upto_rec1[OF assms]) simp
  show "last [lo..hi] = hi" by (subst upto_rec2[OF assms]) simp
  show "[lo..hi] \<noteq> []" using assms by simp
qed

lemma fillin2_Inr:
  assumes "fillin2 data = Inr hp"
  shows "data \<noteq> []" "hp \<noteq> []" "frame (hd hp) = frame (hd data)"
    "frame (last hp) = frame (last data)"
    "int (length hp) = frame (last data) - frame (hd data) + 1"
    "frame (hd data) \<le> frame (last data)"
proof -
  show ne: "data \<noteq> []" using assms by (auto simp: fillin2_def split: if_splits)
  have srt: "sorted (map frame data)"
    using assms by (auto simp: fillin2_def np_diff_sorted split: if_splits)
  obtain out where out: "fillin2 data = Inr out"
    "length out = nat (last (map frame data) - hd (map frame data) + 1)"
    "map frame out = [hd (map frame data)..last (map frame data)]"
    using fillin2_frames[OF ne srt] by blast
  have eq: "out = hp" using out(1) assms by simp
  have fne: "map frame data \<noteq> []" using ne by simp
  have le: "hd (map frame data) \<le> last (map frame data)"
    using sorted_Min_hd[OF srt fne] sorted_Max_last[OF srt fne] fne
    by (metis List.finite_set Max_ge Min_le hd_in_set order_trans)
  then show "frame (hd data) \<le> frame (last data)" using ne by (simp add: hd_map last_map)
  show hne: "hp \<noteq> []" using out(2) le eq by auto
  have "hd (map frame hp) = hd (map frame data)" "last (map frame hp) = last (map frame data)"
    using out(3) eq upto_hd_last[OF le] by simp_all
  then show "frame (hd hp) = frame (hd data)" "frame (last hp) = frame (last data)"
    using hne ne by (simp_all add: hd_map last_map)
  show "int (length hp) = frame (last data) - frame (hd data) + 1"
    using out(2) eq le ne by (simp add: hd_map last_map)
qed

lemma set_py_slice: "set (py_slice vs a b) \<subseteq> set vs"
  by (auto simp: py_slice_def dest: in_set_takeD in_set_dropD)

lemma col_write_length [simp]: "length (col_write M a c vals) = length M"
  by (simp add: col_write_def)

lemma col_write_row_length [simp]:
  "r < length M \<Longrightarrow> length (col_write M a c vals ! r) = length (M ! r)"
  by (simp add: col_write_def)

lemma col_write_nth:
  "r < length M \<Longrightarrow>
     col_write M a c vals ! r ! j =
       (if j = c \<and> c < length (M ! r) \<and> a \<le> r \<and> r < a + length vals then vals ! (r - a)
        else M ! r ! j)"
  by (auto simp: col_write_def nth_list_update list_update_beyond)

lemma has_shape_col_write: "has_shape R C M \<Longrightarrow> has_shape R C (col_write M a c vals)"
  by (auto simp: has_shape_def list_all_length)

lemma ncols_shape: "has_shape R C M \<Longrightarrow> 0 < R \<Longrightarrow> ncols M = C"
  by (cases M) (auto simp: has_shape_def ncols_def)

lemma assign_col_slice_ok:
  assumes "0 \<le> a" and "nat a + length vals \<le> length M" and "0 \<le> col" and "col < int (ncols M)"
  shows "assign_col_slice M a (a + int (length vals)) col vals
           = Inr (col_write M (nat a) (nat col) vals)"
proof -
  have s: "slice_index (length M) a = nat a" using assms(1,2) by (simp add: slice_index_def)
  have e: "slice_index (length M) (a + int (length vals)) = nat a + length vals"
    using assms(1,2) by (simp add: slice_index_def nat_add_distrib)
  have rows: "map (\<lambda>r. if nat a \<le> r \<and> r < nat a + length vals
                  then (M ! r)[nat col := (if length vals = 1 then vals ! 0 else vals ! (r - nat a))]
                  else M ! r) [0..<length M] = col_write M (nat a) (nat col) vals"
    unfolding col_write_def by (rule map_cong[OF refl]) auto
  show ?thesis
    unfolding assign_col_slice_def Let_def s e
    using assms(3,4) rows by simp
qed

lemma scatter_ok:
  assumes sh: "has_shape R C x" "has_shape R C y" "has_shape R C xs" "has_shape R C ys"
    and R: "0 < R"
    and hp: "hp \<noteq> []" "0 \<le> frame (hd hp)"
      "frame (last hp) = frame (hd hp) + int (length hp) - 1" "frame (last hp) < int R"
    and col: "0 \<le> col" "col < int C"
  shows "scatter hp col (nones, x, y, xs, ys) =
           Inr (nones, col_write x (nat (frame (hd hp))) (nat col) (map xpos hp),
                col_write y (nat (frame (hd hp))) (nat col) (map ypos hp),
                col_write xs 0 (nat col) (map xpos hp),
                col_write ys 0 (nat col) (map ypos hp))"
proof -
  let ?a = "frame (hd hp)"
  have i0: "py_index hp 0 = Inr (hd hp)" using hp(1) by (cases hp) (simp_all add: py_index_def)
  have il: "py_index hp (- 1) = Inr (last hp)"
    using hp(1) by (simp add: py_index_def last_conv_nth nat_diff_distrib')
  have stop: "frame (last hp) + 1 = ?a + int (length hp)" using hp(3) by simp
  have stop': "frame (last hp) + 1 - ?a = 0 + int (length hp)" using hp(3) by simp
  have fit: "nat ?a + length hp \<le> R" using hp(2,3,4) by linarith
  have fit0: "nat 0 + length hp \<le> R" using fit by simp
  have nc: "ncols x = C" "ncols y = C" "ncols xs = C" "ncols ys = C"
    using sh R by (simp_all add: ncols_shape)
  have len: "length x = R" "length y = R" "length xs = R" "length ys = R"
    using sh by (simp_all add: has_shape_def)
  have ax: "assign_col_slice x ?a (?a + int (length (map xpos hp))) col (map xpos hp)
      = Inr (col_write x (nat ?a) (nat col) (map xpos hp))"
    by (rule assign_col_slice_ok) (use hp(2) fit col nc len in simp_all)
  have ay: "assign_col_slice y ?a (?a + int (length (map ypos hp))) col (map ypos hp)
      = Inr (col_write y (nat ?a) (nat col) (map ypos hp))"
    by (rule assign_col_slice_ok) (use hp(2) fit col nc len in simp_all)
  have axs: "assign_col_slice xs 0 (0 + int (length (map xpos hp))) col (map xpos hp)
      = Inr (col_write xs (nat 0) (nat col) (map xpos hp))"
    by (rule assign_col_slice_ok) (use fit0 col nc len in simp_all)
  have ays: "assign_col_slice ys 0 (0 + int (length (map ypos hp))) col (map ypos hp)
      = Inr (col_write ys (nat 0) (nat col) (map ypos hp))"
    by (rule assign_col_slice_ok) (use fit0 col nc len in simp_all)
  show ?thesis
    using ax ay axs ays
    by (simp add: scatter_def i0 il ebind_def stop stop')
qed

lemma occupies_iff:
  "occupies hp j (n, xs_m, ys_m, x_m, y_m) \<longleftrightarrow>
     nat (frame (hd hp)) + length hp \<le> length x_m
     \<and> nat (frame (hd hp)) + length hp \<le> length y_m
     \<and> length hp \<le> length xs_m \<and> length hp \<le> length ys_m \<and>
     (\<forall>i<length hp. x_m ! (nat (frame (hd hp)) + i) ! j = xpos (hp ! i)
                    \<and> y_m ! (nat (frame (hd hp)) + i) ! j = ypos (hp ! i)
                    \<and> xs_m ! i ! j = xpos (hp ! i)
                    \<and> ys_m ! i ! j = ypos (hp ! i))"
  by (auto simp: occupies_def list_all_iff)

lemma occupies_count:
  "occupies hp j (n, xs_m, ys_m, x_m, y_m) = occupies hp j (n', xs_m, ys_m, x_m, y_m)"
  by (simp add: occupies_def)

lemma filter_upto_Cons:
  "k \<le> n \<Longrightarrow> filter Q [k..n] = (if Q k then k # filter Q [k + 1..n] else filter Q [k + 1..n])"
  by (subst upto_rec1) simp_all

lemma assemble_loop_inv:
  assumes run: "assemble_loop F P c [k..t] (nones, x, y, xs, ys) = Inr (nones', x', y', xs', ys')"
    and sh: "has_shape R C x" "has_shape R C y" "has_shape R C xs" "has_shape R C ys"
    and R: "0 < R"
    and bounds: "\<forall>p\<in>set F. 0 \<le> frame p \<and> frame p < int R"
    and k: "1 \<le> k" "0 \<le> nones" "nones < k" "t < int C"
  shows "nones' = nones + int (length (filter (\<lambda>n. index_span P n < c) [k..t]))
    \<and> has_shape R C x' \<and> has_shape R C y' \<and> has_shape R C xs' \<and> has_shape R C ys'
    \<and> (\<forall>j r. j < nat (k - nones - 1) \<longrightarrow> r < R \<longrightarrow>
          x' ! r ! j = x ! r ! j \<and> y' ! r ! j = y ! r ! j
          \<and> xs' ! r ! j = xs ! r ! j \<and> ys' ! r ! j = ys ! r ! j)
    \<and> (\<forall>n\<in>set [k..t]. n \<in> set P)
    \<and> (\<forall>n\<in>set [k..t]. c \<le> index_span P n \<longrightarrow>
          (\<exists>hp. fillin2 (particle_rows F P n) = Inr hp
             \<and> occupies hp (nat (k - nones - 1)
                   + length (filter (\<lambda>m. c \<le> index_span P m) [k..n - 1]))
                 (0, xs', ys', x', y')))"
  using assms
proof (induction "nat (t - k + 1)" arbitrary: k nones x y xs ys)
  case 0
  then have "[k..t] = []" by simp
  with "0.prems" show ?case by simp
next
  case (Suc d)
  let ?base = "nat (k - nones - 1)"
  let ?kept = "\<lambda>m. c \<le> index_span P m"
  let ?drop = "\<lambda>m. index_span P m < c"
  have kt: "k \<le> t" using Suc.hyps(2) by simp
  have up: "[k..t] = k # [k + 1..t]" using kt by (simp add: upto_rec1)
  obtain st1 where st1: "place_particle F P c k (nones, x, y, xs, ys) = Inr st1"
    and rest: "assemble_loop F P c [k + 1..t] st1 = Inr (nones', x', y', xs', ys')"
    using Suc.prems(1) unfolding up by (auto split: sum.splits)
  have kin: "k \<in> set P" using place_particle_Inr(1)[OF st1] by (simp add: itindex_nonempty)
  have d: "d = nat (t - (k + 1) + 1)" using Suc.hyps(2) by simp
  show ?case
  proof (cases "?drop k")
    case True
    then have s1: "st1 = (nones + 1, x, y, xs, ys)" using place_particle_Inr(2)[OF st1] by simp
    have base: "nat (k + 1 - (nones + 1) - 1) = ?base" by simp
    have IH: "nones' = nones + 1 + int (length (filter ?drop [k + 1..t]))
      \<and> has_shape R C x' \<and> has_shape R C y' \<and> has_shape R C xs' \<and> has_shape R C ys'
      \<and> (\<forall>j r. j < ?base \<longrightarrow> r < R \<longrightarrow>
          x' ! r ! j = x ! r ! j \<and> y' ! r ! j = y ! r ! j
          \<and> xs' ! r ! j = xs ! r ! j \<and> ys' ! r ! j = ys ! r ! j)
      \<and> (\<forall>n\<in>set [k + 1..t]. n \<in> set P)
      \<and> (\<forall>n\<in>set [k + 1..t]. ?kept n \<longrightarrow>
          (\<exists>hp. fillin2 (particle_rows F P n) = Inr hp
             \<and> occupies hp (?base + length (filter ?kept [k + 1..n - 1]))
                 (0, xs', ys', x', y')))"
      using Suc.hyps(1)[OF d rest[unfolded s1] Suc.prems(2-7)] Suc.prems(8-11)
      unfolding base by simp
    have cnt: "int (length (filter ?drop [k..t])) = 1 + int (length (filter ?drop [k + 1..t]))"
      using True kt by (simp add: filter_upto_Cons)
    have keptcnt: "filter ?kept [k..n - 1] = filter ?kept [k + 1..n - 1]" if "k + 1 \<le> n" for n
      using True that by (simp add: filter_upto_Cons)
    have occ: "\<forall>n\<in>set [k..t]. ?kept n \<longrightarrow>
          (\<exists>hp. fillin2 (particle_rows F P n) = Inr hp
             \<and> occupies hp (?base + length (filter ?kept [k..n - 1]))
                 (0, xs', ys', x', y'))"
    proof (intro ballI impI)
      fix n assume n: "n \<in> set [k..t]" and kn: "?kept n"
      then have "n \<noteq> k" using True by auto
      with n have n': "n \<in> set [k + 1..t]" "k + 1 \<le> n" by auto
      with IH kn show "\<exists>hp. fillin2 (particle_rows F P n) = Inr hp
             \<and> occupies hp (?base + length (filter ?kept [k..n - 1]))
                 (0, xs', ys', x', y')"
        by (simp add: keptcnt)
    qed
    have allin: "\<forall>n\<in>set [k..t]. n \<in> set P" using IH kin up by simp
    show ?thesis using IH cnt occ allin by simp
  next
    case False
    then have kk: "?kept k" by simp
    obtain hp where hp: "fillin2 (particle_rows F P k) = Inr hp"
      and sc: "scatter hp (k - nones - 1) (nones, x, y, xs, ys) = Inr st1"
      using place_particle_Inr(3)[OF st1] kk by blast
    let ?data = "particle_rows F P k"
    note fi = fillin2_Inr[OF hp]
    have sub: "set ?data \<subseteq> set F" by (simp add: particle_rows_def set_py_slice)
    have "hd ?data \<in> set F" "last ?data \<in> set F" using fi(1) sub by auto
    then have fb: "0 \<le> frame (hd hp)" "frame (last hp) < int R"
      using Suc.prems(7) fi(3,4) by auto
    have fl: "frame (last hp) = frame (hd hp) + int (length hp) - 1" using fi(3,4,5) by simp
    have colb: "0 \<le> k - nones - 1" "k - nones - 1 < int C" using Suc.prems(8-11) kt by auto
    let ?a = "nat (frame (hd hp))"
    let ?x1 = "col_write x ?a ?base (map xpos hp)"
    let ?y1 = "col_write y ?a ?base (map ypos hp)"
    let ?xs1 = "col_write xs 0 ?base (map xpos hp)"
    let ?ys1 = "col_write ys 0 ?base (map ypos hp)"
    have s1: "st1 = (nones, ?x1, ?y1, ?xs1, ?ys1)"
      using scatter_ok[OF Suc.prems(2-6) fi(2) fb(1) fl fb(2) colb, of nones] sc by simp
    have sh1: "has_shape R C ?x1" "has_shape R C ?y1" "has_shape R C ?xs1" "has_shape R C ?ys1"
      using Suc.prems(2-5) by (simp_all add: has_shape_col_write)
    have base: "nat (k + 1 - nones - 1) = Suc ?base" using colb by simp
    have k1: "1 \<le> k + 1" "nones < k + 1" using Suc.prems(8,10) by simp_all
    have IH: "nones' = nones + int (length (filter ?drop [k + 1..t]))
      \<and> has_shape R C x' \<and> has_shape R C y' \<and> has_shape R C xs' \<and> has_shape R C ys'
      \<and> (\<forall>j r. j < Suc ?base \<longrightarrow> r < R \<longrightarrow>
          x' ! r ! j = ?x1 ! r ! j \<and> y' ! r ! j = ?y1 ! r ! j
          \<and> xs' ! r ! j = ?xs1 ! r ! j \<and> ys' ! r ! j = ?ys1 ! r ! j)
      \<and> (\<forall>n\<in>set [k + 1..t]. n \<in> set P)
      \<and> (\<forall>n\<in>set [k + 1..t]. ?kept n \<longrightarrow>
          (\<exists>hp. fillin2 (particle_rows F P n) = Inr hp
             \<and> occupies hp (Suc ?base + length (filter ?kept [k + 1..n - 1]))
                 (0, xs', ys', x', y')))"
      using Suc.hyps(1)[OF d rest[unfolded s1] sh1 Suc.prems(6,7) k1(1) Suc.prems(9) k1(2)
          Suc.prems(11)]
      unfolding base by simp
    have len: "length x = R" "length y = R" "length xs = R" "length ys = R"
      using Suc.prems(2-5) by (simp_all add: has_shape_def)
    have rowlen: "\<And>r. r < R \<Longrightarrow> length (x ! r) = C \<and> length (y ! r) = C
        \<and> length (xs ! r) = C \<and> length (ys ! r) = C"
      using Suc.prems(2-5) by (simp add: has_shape_def list_all_length)
    have cnt: "int (length (filter ?drop [k..t])) = int (length (filter ?drop [k + 1..t]))"
      using False kt by (simp add: filter_upto_Cons)
    have old: "\<forall>j r. j < ?base \<longrightarrow> r < R \<longrightarrow>
          x' ! r ! j = x ! r ! j \<and> y' ! r ! j = y ! r ! j
          \<and> xs' ! r ! j = xs ! r ! j \<and> ys' ! r ! j = ys ! r ! j"
    proof (intro allI impI)
      fix j r assume j: "j < ?base" and r: "r < R"
      have "x' ! r ! j = ?x1 ! r ! j \<and> y' ! r ! j = ?y1 ! r ! j
          \<and> xs' ! r ! j = ?xs1 ! r ! j \<and> ys' ! r ! j = ?ys1 ! r ! j"
        using IH j r by simp
      then show "x' ! r ! j = x ! r ! j \<and> y' ! r ! j = y ! r ! j
          \<and> xs' ! r ! j = xs ! r ! j \<and> ys' ! r ! j = ys ! r ! j"
        using j r len by (simp add: col_write_nth)
    qed
    have fit: "?a + length hp \<le> R" using fb fl by linarith
    have baseC: "?base < C" using colb by simp
    have len': "length x' = R" "length y' = R" "length xs' = R" "length ys' = R"
      using IH by (simp_all add: has_shape_def)
    have cells: "\<forall>i<length hp. x' ! (?a + i) ! ?base = xpos (hp ! i)
          \<and> y' ! (?a + i) ! ?base = ypos (hp ! i)
          \<and> xs' ! i ! ?base = xpos (hp ! i) \<and> ys' ! i ! ?base = ypos (hp ! i)"
    proof (intro allI impI)
      fix i assume i: "i < length hp"
      then have r: "?a + i < R" "i < R" using fit by simp_all
      have e: "x' ! (?a + i) ! ?base = ?x1 ! (?a + i) ! ?base"
        "y' ! (?a + i) ! ?base = ?y1 ! (?a + i) ! ?base"
        "xs' ! i ! ?base = ?xs1 ! i ! ?base" "ys' ! i ! ?base = ?ys1 ! i ! ?base"
        using IH r by simp_all
      show "x' ! (?a + i) ! ?base = xpos (hp ! i) \<and> y' ! (?a + i) ! ?base = ypos (hp ! i)
          \<and> xs' ! i ! ?base = xpos (hp ! i) \<and> ys' ! i ! ?base = ypos (hp ! i)"
        unfolding e using i r len rowlen baseC by (simp add: col_write_nth)
    qed
    have occk: "occupies hp ?base (0, xs', ys', x', y')"
      unfolding occupies_iff using fit len' cells by simp
    have occ: "\<forall>n\<in>set [k..t]. ?kept n \<longrightarrow>
          (\<exists>hp. fillin2 (particle_rows F P n) = Inr hp
             \<and> occupies hp (?base + length (filter ?kept [k..n - 1]))
                 (0, xs', ys', x', y'))"
    proof (intro ballI impI)
      fix n assume n: "n \<in> set [k..t]" and kn: "?kept n"
      show "\<exists>hp. fillin2 (particle_rows F P n) = Inr hp
             \<and> occupies hp (?base + length (filter ?kept [k..n - 1]))
                 (0, xs', ys', x', y')"
      proof (cases "n = k")
        case True
        then show ?thesis using hp occk by simp
      next
        case False
        with n have n': "n \<in> set [k + 1..t]" "k \<le> n - 1" by auto
        have "length (filter ?kept [k..n - 1]) = Suc (length (filter ?kept [k + 1..n - 1]))"
          using kk n'(2) by (simp add: filter_upto_Cons)
        with IH n'(1) kn show ?thesis by simp
      qed
    qed
    have allin: "\<forall>n\<in>set [k..t]. n \<in> set P" using IH kin up by simp
    show ?thesis using IH cnt occ allin old by simp
  qed
qed

lemma py_max_ge: "py_max vs = Inr m \<Longrightarrow> v \<in> set vs \<Longrightarrow> v \<le> m"
  by (cases vs) (auto simp: fold_max_Max simp del: set_simps)

lemma py_max_mem: "py_max vs = Inr m \<Longrightarrow> m \<in> set vs"
proof (cases vs)
  case Nil
  then show "py_max vs = Inr m \<Longrightarrow> m \<in> set vs" by simp
next
  case (Cons a list)
  assume "py_max vs = Inr m"
  then have "m = Max (set vs)" using Cons by (simp add: fold_max_Max del: set_simps)
  then show "m \<in> set vs" using Cons Max_in[of "set vs"] by simp
qed

lemma py_index_mem:
  assumes "py_index vs i = Inr v"
  shows "v \<in> set vs"
proof -
  consider (a) "0 \<le> i \<and> i < int (length vs)" "v = vs ! nat i"
    | (b) "i < 0 \<and> 0 \<le> i + int (length vs)" "v = vs ! nat (i + int (length vs))"
    using assms by (auto simp: py_index_def split: if_splits)
  then show ?thesis
  proof cases
    case a
    then have "nat i < length vs" by linarith
    then show ?thesis using a(2) by simp
  next
    case b
    then have "nat (i + int (length vs)) < length vs" by linarith
    then show ?thesis using b(2) by simp
  qed
qed

lemma read_sessions_frames:
  "read_sessions T nt f0 = Inr (nt', f) \<Longrightarrow> f0 \<le> f \<and> (\<forall>s\<in>set T. \<forall>p\<in>set s. frame p \<le> f)"
proof (induction T arbitrary: nt f0)
  case Nil
  then show ?case by simp
next
  case (Cons traj rest)
  obtain lastrow where l: "py_index traj (- 1) = Inr lastrow"
    using Cons.prems by (cases "py_index traj (- 1)") auto
  obtain prev where pv: "py_index nt (- 1) = Inr prev"
    using Cons.prems l by (cases "py_index nt (- 1)") auto
  obtain m where m: "py_max (map frame traj) = Inr m"
    using Cons.prems l pv by (cases "py_max (map frame traj)") auto
  have r: "read_sessions rest (nt @ [prev + track lastrow]) (if f0 < m then m else f0) = Inr (nt', f)"
    using Cons.prems l pv m by simp
  from Cons.IH[OF r] have le: "(if f0 < m then m else f0) \<le> f"
    and restb: "\<forall>s\<in>set rest. \<forall>p\<in>set s. frame p \<le> f" by simp_all
  have "\<forall>p\<in>set traj. frame p \<le> m" using py_max_ge[OF m] by simp
  with le restb show ?case by (auto split: if_splits)
qed

lemma read_sessions_newtots:
  "read_sessions T nt f0 = Inr (nt', f) \<Longrightarrow> \<forall>v\<in>set nt. 0 \<le> v
     \<Longrightarrow> \<forall>s\<in>set T. \<forall>p\<in>set s. 1 \<le> track p \<Longrightarrow> \<forall>v\<in>set nt'. 0 \<le> v"
proof (induction T arbitrary: nt f0)
  case Nil
  then show ?case by simp
next
  case (Cons traj rest)
  obtain lastrow where l: "py_index traj (- 1) = Inr lastrow"
    using Cons.prems(1) by (cases "py_index traj (- 1)") auto
  obtain prev where pv: "py_index nt (- 1) = Inr prev"
    using Cons.prems(1) l by (cases "py_index nt (- 1)") auto
  obtain m where m: "py_max (map frame traj) = Inr m"
    using Cons.prems(1) l pv by (cases "py_max (map frame traj)") auto
  have r: "read_sessions rest (nt @ [prev + track lastrow]) (if f0 < m then m else f0) = Inr (nt', f)"
    using Cons.prems(1) l pv m by simp
  have "lastrow \<in> set traj" using l by (rule py_index_mem)
  then have t1: "1 \<le> track lastrow" using Cons.prems(3) by simp
  have "prev \<in> set nt" using pv by (rule py_index_mem)
  then have "0 \<le> prev" using Cons.prems(2) by simp
  with t1 have "\<forall>v\<in>set (nt @ [prev + track lastrow]). 0 \<le> v" using Cons.prems(2) by auto
  from Cons.IH[OF r this] Cons.prems(3) show ?case by simp
qed

lemma shift_ids_mem:
  assumes "p \<in> set (shift_ids T nt)"
  shows "\<exists>s\<in>set T. \<exists>q\<in>set s. \<exists>off\<in>set nt. frame p = frame q \<and> track p = track q + off"
proof -
  from assms obtain s off q where "(s, off) \<in> set (zip T nt)" "q \<in> set s"
    "p = q\<lparr>track := track q + off\<rparr>"
    by (auto simp: shift_ids_def)
  then show ?thesis by (auto dest: set_zip_leftD set_zip_rightD)
qed

lemma convert_fields [simp]: "frame (convert conv p) = frame p" "track (convert conv p) = track p"
  by (simp_all add: convert_def)

lemma py_slice_take:
  "0 \<le> n \<Longrightarrow> py_slice r 0 n = take (nat n) r"
  by (auto simp: py_slice_def slice_index_def min_def)

lemma py_slice_neg_empty: "py_slice [] 0 n = []"
  by (simp add: py_slice_def)

lemma MSD_iteration_Inr:
  assumes "MSD_iteration T c conv = Inr (total1, xs_m, ys_m, x_m, y_m)"
  obtains newtots frames total nones x y xs ys where
    "read_sessions T [0] 0 = Inr (newtots, frames)"
    "py_max (map track (shift_ids T newtots)) = Inr total"
    "0 \<le> total + 1"
    "assemble_loop (map (convert conv) (shift_ids T newtots)) (map track (shift_ids T newtots)) c
       [1..total]
       (0, replicate (nat (frames + 1)) (replicate (nat (total + 1)) 0),
           replicate (nat (frames + 1)) (replicate (nat (total + 1)) 0),
           replicate (nat (frames + 1)) (replicate (nat (total + 1)) 0),
           replicate (nat (frames + 1)) (replicate (nat (total + 1)) 0))
       = Inr (nones, x, y, xs, ys)"
    "total1 = total - nones"
    "xs_m = map (\<lambda>r. py_slice r 0 (total - nones)) xs"
    "ys_m = map (\<lambda>r. py_slice r 0 (total - nones)) ys"
    "x_m = map (\<lambda>r. py_slice r 0 (total - nones)) x"
    "y_m = map (\<lambda>r. py_slice r 0 (total - nones)) y"
proof -
  obtain newtots frames where rs: "read_sessions T [0] 0 = Inr (newtots, frames)"
    using assms by (cases "read_sessions T [0] 0") (auto simp: MSD_iteration_def ebind_def)
  obtain total where mx: "py_max (map track (shift_ids T newtots)) = Inr total"
    using assms rs by (cases "py_max (map track (shift_ids T newtots))")
      (auto simp: MSD_iteration_def ebind_def Let_def)
  have nn: "\<not> (frames + 1 < 0 \<or> total + 1 < 0)"
    using assms rs mx
    by (auto simp: MSD_iteration_def ebind_def Let_def np_zeros2_def split: if_splits)
  let ?Z = "replicate (nat (frames + 1)) (replicate (nat (total + 1)) (0::real))"
  have z: "np_zeros2 (frames + 1) (total + 1) = Inr ?Z" using nn by (simp add: np_zeros2_def)
  obtain nones x y xs ys where lp:
    "assemble_loop (map (convert conv) (shift_ids T newtots)) (map track (shift_ids T newtots)) c
       [1..total] (0, ?Z, ?Z, ?Z, ?Z) = Inr (nones, x, y, xs, ys)"
    using assms rs mx z
    by (cases "assemble_loop (map (convert conv) (shift_ids T newtots))
          (map track (shift_ids T newtots)) c [1..total] (0, ?Z, ?Z, ?Z, ?Z)")
      (auto simp: MSD_iteration_def ebind_def Let_def)
  have res: "total1 = total - nones"
    "xs_m = map (\<lambda>r. py_slice r 0 (total - nones)) xs"
    "ys_m = map (\<lambda>r. py_slice r 0 (total - nones)) ys"
    "x_m = map (\<lambda>r. py_slice r 0 (total - nones)) x"
    "y_m = map (\<lambda>r. py_slice r 0 (total - nones)) y"
    using assms rs mx z lp by (auto simp: MSD_iteration_def ebind_def Let_def)
  show ?thesis using that[OF rs mx _ lp res] nn by simp
qed

lemma filled_fits:
  assumes "fillin2 (particle_rows F P n) = Inr hp"
    and "\<forall>p\<in>set F. 0 \<le> frame p \<and> frame p < int R"
  shows "nat (frame (hd hp)) + length hp \<le> R"
proof -
  note fi = fillin2_Inr[OF assms(1)]
  have sub: "set (particle_rows F P n) \<subseteq> set F" by (simp add: particle_rows_def set_py_slice)
  have "hd (particle_rows F P n) \<in> set F" "last (particle_rows F P n) \<in> set F"
    using fi(1) sub by auto
  then have "0 \<le> frame (hd hp)" "frame (last hp) < int R" using assms(2) fi(3,4) by auto
  moreover have "frame (last hp) = frame (hd hp) + int (length hp) - 1" using fi(3,4,5) by simp
  ultimately show ?thesis by linarith
qed

lemma trunc_length:
  assumes "length r = nat (tt + 1)" and "0 \<le> tt + 1" and "0 \<le> nones" and "nones \<le> int (nat tt)"
  shows "length (py_slice r 0 (tt - nones)) = nat (tt - nones)"
proof (cases "0 \<le> tt")
  case True
  then have "0 \<le> tt - nones" using assms(4) by simp
  then show ?thesis using assms(1,3) True by (simp add: py_slice_take)
next
  case False
  then have "r = []" using assms(1,2) by simp
  then show ?thesis using False assms(3) by (simp add: py_slice_neg_empty)
qed

lemma kept_plus_dropped:
  "length (filter (\<lambda>m. (c::int) \<le> f m) ns) + length (filter (\<lambda>m. f m < c) ns) = length ns"
  using sum_length_filter_compl[of "\<lambda>m. c \<le> f m" ns] by (simp add: not_le)

lemma kept_index:
  assumes "1 \<le> n" and "n \<le> t" and "Q n"
  shows "length (filter Q [1..n - 1]) < length (filter Q [1..t])"
    and "filter Q [1..t] ! length (filter Q [1..n - 1]) = n"
proof -
  have sp: "[1..t] = [1..n - 1] @ n # [n + 1..t]"
    using upto_split1[OF assms(1,2)] upto_rec1[OF assms(2)] by simp
  show "length (filter Q [1..n - 1]) < length (filter Q [1..t])"
    unfolding sp using assms(3) by simp
  show "filter Q [1..t] ! length (filter Q [1..n - 1]) = n"
    unfolding sp using assms(3) by (simp add: nth_append)
qed

lemma MSD_iteration_result:
  assumes ok: "MSD_iteration T c conv = Inr (total1, xs_m, ys_m, x_m, y_m)"
    and nonneg: "\<forall>s\<in>set T. \<forall>p\<in>set s. 0 \<le> frame p"
  defines "P \<equiv> map track (placeholder_of T)"
    and "F \<equiv> map (convert conv) (placeholder_of T)"
  shows "total1 = total_of P - int (length (dropped P c))"
    and "\<forall>row\<in>set xs_m \<union> set ys_m \<union> set x_m \<union> set y_m. length row = nat total1"
    and "\<forall>n\<in>set [1..total_of P]. n \<in> set P"
    and "- 1 \<le> total_of P"
    and "\<forall>n\<in>set [1..total_of P]. c \<le> index_span P n \<longrightarrow>
          (\<exists>hp. fillin2 (particle_rows F P n) = Inr hp
             \<and> occupies hp (length (filter (\<lambda>m. c \<le> index_span P m) [1..n - 1]))
                 (total1, xs_m, ys_m, x_m, y_m))"
proof -
  obtain newtots frames total nones x y xs ys where
    rs: "read_sessions T [0] 0 = Inr (newtots, frames)"
    and mx: "py_max (map track (shift_ids T newtots)) = Inr total"
    and tot: "0 \<le> total + 1"
    and lp: "assemble_loop (map (convert conv) (shift_ids T newtots))
       (map track (shift_ids T newtots)) c [1..total]
       (0, replicate (nat (frames + 1)) (replicate (nat (total + 1)) 0),
           replicate (nat (frames + 1)) (replicate (nat (total + 1)) 0),
           replicate (nat (frames + 1)) (replicate (nat (total + 1)) 0),
           replicate (nat (frames + 1)) (replicate (nat (total + 1)) 0))
       = Inr (nones, x, y, xs, ys)"
    and res: "total1 = total - nones"
      "xs_m = map (\<lambda>r. py_slice r 0 (total - nones)) xs"
      "ys_m = map (\<lambda>r. py_slice r 0 (total - nones)) ys"
      "x_m = map (\<lambda>r. py_slice r 0 (total - nones)) x"
      "y_m = map (\<lambda>r. py_slice r 0 (total - nones)) y"
    using MSD_iteration_Inr[OF ok] by metis
  let ?R = "nat (frames + 1)" and ?C = "nat (total + 1)"
  let ?Z = "replicate ?R (replicate ?C (0::real))"
  let ?kept = "\<lambda>m. c \<le> index_span P m"
  have ph: "placeholder_of T = shift_ids T newtots" by (simp add: placeholder_of_def rs)
  have Pdef: "P = map track (shift_ids T newtots)" by (simp add: P_def ph)
  have Fdef: "F = map (convert conv) (shift_ids T newtots)" by (simp add: F_def ph)
  have tP: "total_of P = total" by (simp add: total_of_def Pdef mx)
  have fr: "0 \<le> frames" "\<forall>s\<in>set T. \<forall>p\<in>set s. frame p \<le> frames"
    using read_sessions_frames[OF rs] by simp_all
  have R: "0 < ?R" using fr(1) by simp
  have Z: "has_shape ?R ?C ?Z" by (simp add: has_shape_def list_all_length)
  have bounds: "\<forall>p\<in>set F. 0 \<le> frame p \<and> frame p < int ?R"
  proof
    fix p assume "p \<in> set F"
    then obtain q where q: "q \<in> set (shift_ids T newtots)" "frame p = frame q"
      by (auto simp: Fdef)
    then obtain s q0 where "s \<in> set T" "q0 \<in> set s" "frame q = frame q0"
      using shift_ids_mem[OF q(1)] by blast
    then show "0 \<le> frame p \<and> frame p < int ?R" using nonneg fr q(2) by fastforce
  qed
  have tC: "total < int ?C" using tot by simp
  note inv = assemble_loop_inv[OF lp[folded Pdef Fdef] Z Z Z Z R bounds _ _ _ tC]
  have inv': "nones = int (length (filter (\<lambda>n. index_span P n < c) [1..total]))"
    "has_shape ?R ?C x" "has_shape ?R ?C y" "has_shape ?R ?C xs" "has_shape ?R ?C ys"
    "\<forall>n\<in>set [1..total]. n \<in> set P"
    "\<forall>n\<in>set [1..total]. ?kept n \<longrightarrow>
          (\<exists>hp. fillin2 (particle_rows F P n) = Inr hp
             \<and> occupies hp (length (filter ?kept [1..n - 1])) (0, xs, ys, x, y))"
    using inv by simp_all
  have nd: "nones = int (length (dropped P c))" using inv'(1) by (simp add: dropped_def tP)
  show "total1 = total_of P - int (length (dropped P c))" using res(1) nd tP by simp
  show "\<forall>n\<in>set [1..total_of P]. n \<in> set P" using inv'(6) tP by simp
  show "- 1 \<le> total_of P" using tot tP by simp
  have n0: "0 \<le> nones" using inv'(1) by simp
  have nle: "nones \<le> int (nat total)"
  proof -
    have "length (filter (\<lambda>n. index_span P n < c) [1..total]) \<le> length [1..total]"
      by (rule length_filter_le)
    then have "length (filter (\<lambda>n. index_span P n < c) [1..total]) \<le> nat total" by simp
    then show ?thesis unfolding inv'(1) by linarith
  qed
  have rowlen: "length (py_slice r 0 (total - nones)) = nat (total - nones)"
    if "length r = ?C" for r :: "real list"
    using trunc_length[OF that tot n0 nle] .
  have rows: "\<forall>r\<in>set M. length r = ?C" if "has_shape ?R ?C M" for M
    using that by (simp add: has_shape_def list_all_iff)
  show "\<forall>row\<in>set xs_m \<union> set ys_m \<union> set x_m \<union> set y_m. length row = nat total1"
    using rows[OF inv'(2)] rows[OF inv'(3)] rows[OF inv'(4)] rows[OF inv'(5)] rowlen
    by (auto simp: res)
  have len: "length x = ?R" "length y = ?R" "length xs = ?R" "length ys = ?R"
    using inv'(2-5) by (simp_all add: has_shape_def)
  show "\<forall>n\<in>set [1..total_of P]. ?kept n \<longrightarrow>
          (\<exists>hp. fillin2 (particle_rows F P n) = Inr hp
             \<and> occupies hp (length (filter ?kept [1..n - 1])) (total1, xs_m, ys_m, x_m, y_m))"
  proof (intro ballI impI)
    fix n assume n: "n \<in> set [1..total_of P]" and kn: "?kept n"
    then have nr: "1 \<le> n" "n \<le> total" using tP by simp_all
    let ?j = "length (filter ?kept [1..n - 1])"
    obtain hp where hp: "fillin2 (particle_rows F P n) = Inr hp"
      and occ: "occupies hp ?j (0, xs, ys, x, y)"
      using inv'(7) n kn tP by auto
    have fit: "nat (frame (hd hp)) + length hp \<le> ?R" by (rule filled_fits[OF hp bounds])
    have "int (length (filter ?kept [1..total])) = total - nones"
      using kept_plus_dropped[of c "index_span P" "[1..total]"] inv'(1) nr by simp
    then have jlt: "?j < nat (total - nones)"
      using kept_index(1)[OF nr, of ?kept] kn by simp
    have n0': "0 \<le> total - nones" using jlt by simp
    have cell: "map (\<lambda>r. py_slice r 0 (total - nones)) M ! r ! ?j = M ! r ! ?j"
      if "r < length M" for M :: matrix and r
      using that jlt n0' by (simp add: py_slice_take)
    have "\<forall>i<length hp.
          map (\<lambda>r. py_slice r 0 (total - nones)) x ! (nat (frame (hd hp)) + i) ! ?j = xpos (hp ! i)
        \<and> map (\<lambda>r. py_slice r 0 (total - nones)) y ! (nat (frame (hd hp)) + i) ! ?j = ypos (hp ! i)
        \<and> map (\<lambda>r. py_slice r 0 (total - nones)) xs ! i ! ?j = xpos (hp ! i)
        \<and> map (\<lambda>r. py_slice r 0 (total - nones)) ys ! i ! ?j = ypos (hp ! i)"
    proof (intro allI impI)
      fix i assume i: "i < length hp"
      then have r: "nat (frame (hd hp)) + i < ?R" "i < ?R" using fit by simp_all
      from occ i have o: "x ! (nat (frame (hd hp)) + i) ! ?j = xpos (hp ! i)"
        "y ! (nat (frame (hd hp)) + i) ! ?j = ypos (hp ! i)"
        "xs ! i ! ?j = xpos (hp ! i)" "ys ! i ! ?j = ypos (hp ! i)"
        by (simp_all add: occupies_iff)
      show "map (\<lambda>r. py_slice r 0 (total - nones)) x ! (nat (frame (hd hp)) + i) ! ?j = xpos (hp ! i)
        \<and> map (\<lambda>r. py_slice r 0 (total - nones)) y ! (nat (frame (hd hp)) + i) ! ?j = ypos (hp ! i)
        \<and> map (\<lambda>r. py_slice r 0 (total - nones)) xs ! i ! ?j = xpos (hp ! i)
        \<and> map (\<lambda>r. py_slice r 0 (total - nones)) ys ! i ! ?j = ypos (hp ! i)"
        using o r len by (simp only: cell)
    qed
    then have "occupies hp ?j (total1, xs_m, ys_m, x_m, y_m)"
      unfolding occupies_iff res using fit len by simp
    with hp show "\<exists>hp. fillin2 (particle_rows F P n) = Inr hp
             \<and> occupies hp ?j (total1, xs_m, ys_m, x_m, y_m)" by blast
  qed
qed

lemma ids_contiguous:
  assumes ok: "MSD_iteration T c conv = Inr (total1, xs_m, ys_m, x_m, y_m)"
    and nonneg: "\<forall>s\<in>set T. \<forall>p\<in>set s. 0 \<le> frame p"
    and ids: "\<forall>s\<in>set T. \<forall>p\<in>set s. 1 \<le> track p"
  shows "set (map track (placeholder_of T)) = {1..total_of (map track (placeholder_of T))}"
    and "1 \<le> total_of (map track (placeholder_of T))"
proof -
  let ?P = "map track (placeholder_of T)"
  obtain newtots frames tt where
    rs: "read_sessions T [0] 0 = Inr (newtots, frames)"
    and mx: "py_max (map track (shift_ids T newtots)) = Inr tt"
    using MSD_iteration_Inr[OF ok] by metis
  have ph: "placeholder_of T = shift_ids T newtots" by (simp add: placeholder_of_def rs)
  have tP: "total_of ?P = tt" by (simp add: total_of_def ph mx)
  have offs: "\<forall>v\<in>set newtots. 0 \<le> v"
    by (rule read_sessions_newtots[OF rs _ ids]) simp
  have pos: "1 \<le> v" if "v \<in> set ?P" for v
  proof -
    from that obtain p where p: "p \<in> set (shift_ids T newtots)" "v = track p"
      by (auto simp: ph)
    then obtain s q off where "s \<in> set T" "q \<in> set s" "off \<in> set newtots"
      "track p = track q + off"
      using shift_ids_mem[OF p(1)] by blast
    then show ?thesis using ids offs p(2) by fastforce
  qed
  have le: "v \<le> tt" if "v \<in> set ?P" for v
    using py_max_ge[OF mx] that by (simp add: ph)
  have "tt \<in> set ?P" using py_max_mem[OF mx] by (simp add: ph)
  then show "1 \<le> total_of ?P" using pos tP by simp
  have "{1..tt} \<subseteq> set ?P"
    using MSD_iteration_result(3)[OF ok nonneg] tP by auto
  moreover have "set ?P \<subseteq> {1..tt}" using pos le by auto
  ultimately show "set ?P = {1..total_of ?P}" using tP by simp
qed


text \<open>
  C4, as stated, fails. One particle is observed at frames 0 and 10 and the cutoff is 5:
  its last frame minus its first frame is 10, so the specification's rule keeps it, but
  the code compares the difference of its record indices, which is 1, and allocates no
  column.
\<close>

theorem column_iff_frame_span_counterexample:
  "MSD_iteration [[\<lparr>track = 1, frame = 0, xpos = 1, ypos = 2, zpos = 0\<rparr>,
                   \<lparr>track = 1, frame = 10, xpos = 3, ypos = 4, zpos = 0\<rparr>]] 5 (1, 1, 1)
     = Inr (0, replicate 11 [], replicate 11 [], replicate 11 [], replicate 11 [])
   \<and> spec_survivors (placeholder_of [[\<lparr>track = 1, frame = 0, xpos = 1, ypos = 2, zpos = 0\<rparr>,
                   \<lparr>track = 1, frame = 10, xpos = 3, ypos = 4, zpos = 0\<rparr>]]) 5 = [1]"
  by code_simp


text \<open>
  C4, amended. For every dataset that \<open>MSD_iteration\<close> assembles (frames not negative,
  particle ids from 1 on), a particle is allocated a column if and only if the index of
  its last record minus the index of its first record in the concatenated record set is
  at least the cutoff: the matrices have as many columns as there are such particles, and
  the filled trajectory of such a particle \<open>n\<close> occupies column \<open>n - 1\<close> minus the number
  of dropped particles below \<open>n\<close> (the drop counter compacts the columns).
\<close>

theorem column_iff_index_span:
  assumes "MSD_iteration T c conv = Inr (total1, xs_m, ys_m, x_m, y_m)"
    and "\<forall>s\<in>set T. \<forall>p\<in>set s. 0 \<le> frame p \<and> 1 \<le> track p"
  shows "total1 = int (length (filter (\<lambda>n. c \<le> index_span (map track (placeholder_of T)) n)
                                 [1..total_of (map track (placeholder_of T))]))
    \<and> (\<forall>n\<in>set [1..total_of (map track (placeholder_of T))].
          c \<le> index_span (map track (placeholder_of T)) n \<longrightarrow>
          (\<exists>hp. fillin2 (particle_rows (map (convert conv) (placeholder_of T))
                          (map track (placeholder_of T)) n) = Inr hp
             \<and> occupies hp
                 (nat (n - 1) - length (filter (\<lambda>m. index_span (map track (placeholder_of T)) m < c)
                                          [1..n - 1]))
                 (total1, xs_m, ys_m, x_m, y_m)))"
proof -
  let ?P = "map track (placeholder_of T)"
  let ?F = "map (convert conv) (placeholder_of T)"
  let ?kept = "\<lambda>m. c \<le> index_span ?P m"
  let ?drop = "\<lambda>m. index_span ?P m < c"
  have nonneg: "\<forall>s\<in>set T. \<forall>p\<in>set s. 0 \<le> frame p"
    and ids: "\<forall>s\<in>set T. \<forall>p\<in>set s. 1 \<le> track p" using assms(2) by auto
  note res = MSD_iteration_result[OF assms(1) nonneg]
  have t1: "1 \<le> total_of ?P" by (rule ids_contiguous(2)[OF assms(1) nonneg ids])
  have "int (length (filter ?kept [1..total_of ?P])) + int (length (filter ?drop [1..total_of ?P]))
      = total_of ?P"
    using kept_plus_dropped[of c "index_span ?P" "[1..total_of ?P]"] t1 by simp
  then have cnt: "total1 = int (length (filter ?kept [1..total_of ?P]))"
    using res(1) by (simp add: dropped_def)
  have col: "length (filter ?kept [1..n - 1]) = nat (n - 1) - length (filter ?drop [1..n - 1])"
    if "1 \<le> n" for n
    using kept_plus_dropped[of c "index_span ?P" "[1..n - 1]"] that by simp
  have "\<forall>n\<in>set [1..total_of ?P]. ?kept n \<longrightarrow>
          (\<exists>hp. fillin2 (particle_rows ?F ?P n) = Inr hp
             \<and> occupies hp (nat (n - 1) - length (filter ?drop [1..n - 1]))
                 (total1, xs_m, ys_m, x_m, y_m))"
  proof (intro ballI impI)
    fix n assume n: "n \<in> set [1..total_of ?P]" and kn: "?kept n"
    then have "1 \<le> n" by simp
    from col[OF this] res(5) n kn
    show "\<exists>hp. fillin2 (particle_rows ?F ?P n) = Inr hp
             \<and> occupies hp (nat (n - 1) - length (filter ?drop [1..n - 1]))
                 (total1, xs_m, ys_m, x_m, y_m)"
      by auto
  qed
  with cnt show ?thesis by blast
qed


text \<open>The theorem at two sessions with three particles, of which the second is dropped.\<close>

theorem column_iff_index_span_witness:
  "MSD_iteration [[\<lparr>track = 1, frame = 0, xpos = 10, ypos = 11, zpos = 0\<rparr>,
                   \<lparr>track = 1, frame = 2, xpos = 20, ypos = 21, zpos = 0\<rparr>,
                   \<lparr>track = 2, frame = 1, xpos = 5, ypos = 6, zpos = 0\<rparr>],
                  [\<lparr>track = 1, frame = 1, xpos = 7, ypos = 8, zpos = 0\<rparr>,
                   \<lparr>track = 1, frame = 2, xpos = 8, ypos = 9, zpos = 0\<rparr>,
                   \<lparr>track = 1, frame = 3, xpos = 9, ypos = 10, zpos = 0\<rparr>]] 1 (2, 1, 1)
     = Inr (2, [[20, 14], [20, 14], [40, 16], [0, 0]], [[22, 16], [22, 16], [42, 18], [0, 0]],
               [[20, 0], [20, 14], [40, 14], [0, 16]], [[22, 0], [22, 16], [42, 16], [0, 18]])
   \<and> list_all (list_all (\<lambda>p. 0 \<le> frame p \<and> 1 \<le> track p))
        [[\<lparr>track = 1, frame = 0, xpos = 10, ypos = 11, zpos = 0\<rparr>,
                   \<lparr>track = 1, frame = 2, xpos = 20, ypos = 21, zpos = 0\<rparr>,
                   \<lparr>track = 2, frame = 1, xpos = 5, ypos = 6, zpos = 0\<rparr>],
                  [\<lparr>track = 1, frame = 1, xpos = 7, ypos = 8, zpos = 0\<rparr>,
                   \<lparr>track = 1, frame = 2, xpos = 8, ypos = 9, zpos = 0\<rparr>,
                   \<lparr>track = 1, frame = 3, xpos = 9, ypos = 10, zpos = 0\<rparr>]]
   \<and> (2::int) = int (length (filter (\<lambda>n. 1 \<le> index_span [1, 1, 2, 3, 3, 3] n) [1..3]))"
proof -
  let ?T = "[[\<lparr>track = 1, frame = 0, xpos = 10, ypos = 11, zpos = 0\<rparr>,
                   \<lparr>track = 1, frame = 2, xpos = 20, ypos = 21, zpos = 0\<rparr>,
                   \<lparr>track = 2, frame = 1, xpos = 5, ypos = 6, zpos = 0\<rparr>],
                  [\<lparr>track = 1, frame = 1, xpos = 7, ypos = 8, zpos = 0\<rparr>,
                   \<lparr>track = 1, frame = 2, xpos = 8, ypos = 9, zpos = 0\<rparr>,
                   \<lparr>track = 1, frame = 3, xpos = 9, ypos = 10, zpos = 0\<rparr>]]"
  have ok: "MSD_iteration ?T 1 (2, 1, 1)
     = Inr (2, [[20, 14], [20, 14], [40, 16], [0, 0]], [[22, 16], [22, 16], [42, 18], [0, 0]],
               [[20, 0], [20, 14], [40, 14], [0, 16]], [[22, 0], [22, 16], [42, 16], [0, 18]])"
    by code_simp
  have pre: "\<forall>s\<in>set ?T. \<forall>p\<in>set s. 0 \<le> frame p \<and> 1 \<le> track p" by simp
  have P: "map track (placeholder_of ?T) = [1, 1, 2, 3, 3, 3]" by code_simp
  have tot: "total_of [1, 1, 2, 3, 3, 3] = 3" by code_simp
  have pre': "list_all (list_all (\<lambda>p. 0 \<le> frame p \<and> 1 \<le> track p)) ?T" by simp
  show ?thesis using column_iff_index_span[OF ok pre] ok pre' unfolding P tot by blast
qed





section \<open>The store: what the filler and the engine leave unchanged\<close>

lemma fill_loop_h_frame:
  "length (fst (fill_loop_h h d f nums st)) = length h
   \<and> (\<forall>a. a \<noteq> f \<longrightarrow> fst (fill_loop_h h d f nums st) ! a = h ! a)"
proof (induction h d f nums st rule: fill_loop_h.induct)
  case (1 h d f st)
  then show ?case by simp
next
  case (2 h d f num nums count new other tot)
  show ?case
  proof (cases "h ! f")
    case (PointArr filledin)
    note hf = this
    show ?thesis
    proof (cases "h ! d")
      case (PointArr data)
      note hd = this
      show ?thesis
      proof (cases "py_index filledin (int num)")
        case (Inl e)
        then show ?thesis by (simp add: hf hd)
      next
        case (Inr cur)
        note c = this
        show ?thesis
        proof (cases "py_index (map frame data) (int num - new - 1)")
          case (Inl e)
          then show ?thesis by (simp add: hf hd c)
        next
          case (Inr v)
          note vv = this
          define count' where "count' = (if frame cur - v = 0 then count + 1 else count)"
          define new' where "new' = (if frame cur - v = 0 then new
                         else if frame cur - v < 0 then new + 1 else new)"
          define other' where "other' = (if frame cur - v = 0 then other
                           else if frame cur - v < 0 then other else other + 1)"
          show ?thesis
          proof (cases "py_index data (int num - new' - 1)")
            case (Inl e)
            then show ?thesis
              unfolding new'_def by (auto simp add: hf hd c vv Let_def)
          next
            case (Inr src)
            have step: "fill_loop_h h d f (num # nums) (count, new, other, tot)
              = fill_loop_h (h[f := PointArr (filledin[num := copy_fields cur src])]) d f nums
                 (count', new', other', count' + new' + other')"
              using Inr unfolding new'_def count'_def other'_def
              by (auto simp add: hf hd c vv Let_def)
            have IH: "length (fst (fill_loop_h (h[f := PointArr (filledin[num := copy_fields cur src])])
                  d f nums (count', new', other', count' + new' + other'))) =
                length (h[f := PointArr (filledin[num := copy_fields cur src])])
              \<and> (\<forall>a. a \<noteq> f \<longrightarrow>
                  fst (fill_loop_h (h[f := PointArr (filledin[num := copy_fields cur src])])
                  d f nums (count', new', other', count' + new' + other')) ! a =
                  h[f := PointArr (filledin[num := copy_fields cur src])] ! a)"
              by (rule "2.IH"[OF refl hf hd c vv count'_def new'_def other'_def Inr])
            show ?thesis unfolding step using IH by simp
          qed
        qed
      qed
    qed (simp_all add: hf)
  qed simp_all
qed

text \<open>On the store the filler computes what \<open>fillin2\<close> computes: the same result or
  the same exception, and on success the array at the returned address is the result.\<close>

lemma fill_loop_h_refines:
  assumes "h ! d = PointArr data" and "h ! f = PointArr filledin" and "d \<noteq> f" and "f < length h"
  shows "snd (fill_loop_h h d f nums st)
           = map_sum id (\<lambda>_. ()) (fill_loop data (map frame data) nums st filledin)
       \<and> (\<forall>out. fill_loop data (map frame data) nums st filledin = Inr out
             \<longrightarrow> fst (fill_loop_h h d f nums st) ! f = PointArr out)"
  using assms
proof (induction nums arbitrary: h st filledin)
  case Nil
  then show ?case by simp
next
  case (Cons num nums)
  obtain count new other tot where st: "st = (count, new, other, tot)" by (cases st) auto
  note hf = Cons.prems(2) and hd = Cons.prems(1)
  show ?case
  proof (cases "py_index filledin (int num)")
    case (Inl e)
    then show ?thesis by (simp add: st hf hd)
  next
    case (Inr cur)
    note c = this
    show ?thesis
    proof (cases "py_index (map frame data) (int num - new - 1)")
      case (Inl e)
      then show ?thesis by (simp add: st hf hd c)
    next
      case (Inr v)
      note vv = this
      define count' where "count' = (if frame cur - v = 0 then count + 1 else count)"
      define new' where "new' = (if frame cur - v = 0 then new
                     else if frame cur - v < 0 then new + 1 else new)"
      define other' where "other' = (if frame cur - v = 0 then other
                       else if frame cur - v < 0 then other else other + 1)"
      show ?thesis
      proof (cases "py_index data (int num - new' - 1)")
        case (Inl e)
        then show ?thesis
          unfolding new'_def by (auto simp add: st hf hd c vv Let_def)
      next
        case (Inr src)
        let ?h' = "h[f := PointArr (filledin[num := copy_fields cur src])]"
        let ?st' = "(count', new', other', count' + new' + other')"
        have step: "fill_loop_h h d f (num # nums) st = fill_loop_h ?h' d f nums ?st'"
          using Inr unfolding new'_def count'_def other'_def
          by (auto simp add: st hf hd c vv Let_def)
        have pstep: "fill_loop data (map frame data) (num # nums) st filledin
            = fill_loop data (map frame data) nums ?st' (filledin[num := copy_fields cur src])"
          using Inr unfolding new'_def count'_def other'_def
          by (auto simp add: st c vv Let_def)
        have h'd: "?h' ! d = PointArr data" using hd Cons.prems(3) by simp
        have h'f: "?h' ! f = PointArr (filledin[num := copy_fields cur src])"
          using Cons.prems(4) by simp
        have len: "f < length ?h'" using Cons.prems(4) by simp
        show ?thesis unfolding step pstep
          by (rule Cons.IH[OF h'd h'f Cons.prems(3) len])
      qed
    qed
  qed
qed

lemma fill_loop_h_fresh:
  assumes "fill_loop_h (h @ [a]) d (length h) nums st = (h', r)"
  shows "take (length h) h' = h \<and> length h < length h'"
proof -
  note fr = fill_loop_h_frame[of "h @ [a]" d "length h" nums st]
  have h': "h' = fst (fill_loop_h (h @ [a]) d (length h) nums st)" using assms by simp
  have "take (length h) h' = take (length h) (h @ [a])"
    unfolding h' by (rule nth_equalityI) (use fr in \<open>auto simp: nth_append\<close>)
  then show ?thesis using fr h' by simp
qed

lemma fillin2_h_frame:
  "take (length h) (fst (fillin2_h h d)) = h
   \<and> (\<forall>out. snd (fillin2_h h d) = Inr out
         \<longrightarrow> out = length h \<and> out < length (fst (fillin2_h h d)))"
  unfolding fillin2_h_def alloc_def
  by (auto split: arr.splits sum.splits prod.splits simp: Let_def dest: fill_loop_h_fresh
      simp del: fill_loop_h.simps)

lemma fillin2_h_refines:
  assumes "h ! d = PointArr data" and "d < length h"
  shows "snd (fillin2_h h d) = map_sum id (\<lambda>_. length h) (fillin2 data)
       \<and> (\<forall>out. fillin2 data = Inr out \<longrightarrow> fst (fillin2_h h d) ! length h = PointArr out)"
proof (cases "list_all (\<lambda>v. v = \<bar>v\<bar>) (np_diff (map frame data)) \<and> 0 < length data")
  case False
  then show ?thesis by (auto simp: fillin2_h_def fillin2_def assms(1))
next
  case True
  then obtain mx where mx: "py_max (map frame data) = Inr mx" by (cases data) auto
  from True obtain shape1 where mn: "py_min (map frame data) = Inr shape1" by (cases data) auto
  show ?thesis
  proof (cases "np_zeros (mx + 1 - shape1) zero_point")
    case (Inl e)
    then show ?thesis using True by (simp add: fillin2_h_def fillin2_def assms(1) mx mn ebind_def)
  next
    case (Inr z)
    note z = this
    show ?thesis
    proof (cases "py_index data 0")
      case (Inl e)
      then show ?thesis using True
        by (simp add: fillin2_h_def fillin2_def assms(1) mx mn ebind_def z alloc_def)
    next
      case (Inr first)
      note i0 = this
      show ?thesis
      proof (cases "py_store z 0 first")
        case (Inl e)
        then show ?thesis using True
          by (simp add: fillin2_h_def fillin2_def assms(1) mx mn ebind_def z alloc_def i0)
      next
        case (Inr filledin1)
        let ?init = "map2 (\<lambda>r v. r\<lparr>frame := v\<rparr>) filledin1
                       (linspace shape1 (mx + 1 - 1) (mx + 1 - shape1))"
        let ?h3 = "h @ [PointArr ?init]"
        let ?nums = "[1..<nat (mx + 1 - shape1)]"
        have pure: "fillin2 data = fill_loop data (map frame data) ?nums (0, 0, 0, 0) ?init"
          using True unfolding fillin2_def Let_def
          by (simp only: mx mn ebind_def sum.case z i0 Inr simp_thms if_True if_False)
        have hp: "fillin2_h h d = (case fill_loop_h ?h3 d (length h) ?nums (0, 0, 0, 0) of
                 (h4, Inl e) \<Rightarrow> (h4, Inl e)
               | (h4, Inr u) \<Rightarrow> (h4, Inr (length h)))"
          using True unfolding fillin2_h_def Let_def alloc_def
          by (simp only: assms(1) arr.case mx mn sum.case z i0 Inr simp_thms if_True if_False
              prod.case length_append_singleton list_update_length list_update_overwrite)
        have r: "snd (fill_loop_h ?h3 d (length h) ?nums (0, 0, 0, 0))
           = map_sum id (\<lambda>_. ()) (fill_loop data (map frame data) ?nums (0, 0, 0, 0) ?init)
          \<and> (\<forall>out. fill_loop data (map frame data) ?nums (0, 0, 0, 0) ?init = Inr out
             \<longrightarrow> fst (fill_loop_h ?h3 d (length h) ?nums (0, 0, 0, 0)) ! length h = PointArr out)"
          by (rule fill_loop_h_refines) (use assms in \<open>auto simp: nth_append\<close>)
        show ?thesis unfolding hp pure using r
          by (cases "fill_loop_h ?h3 d (length h) ?nums (0, 0, 0, 0)";
              cases "fill_loop data (map frame data) ?nums (0, 0, 0, 0) ?init")
            (auto split: sum.splits)
      qed
    qed
  qed
qed

lemma lag_step_h_frame:
  assumes "lag_step_h h mxs mys aSx aSy lag = (h', r)"
  shows "length h' = length h \<and> (\<forall>a. a \<noteq> aSx \<and> a \<noteq> aSy \<longrightarrow> h' ! a = h ! a)"
  using assms unfolding lag_step_h_def
  by (auto split: arr.splits sum.splits)

lemma lag_loop_h_frame:
  assumes "lag_loop_h h mxs mys aSx aSy lags st = (h', r)"
  shows "length h' = length h \<and> (\<forall>a. a \<noteq> aSx \<and> a \<noteq> aSy \<longrightarrow> h' ! a = h ! a)"
  using assms
proof (induction lags arbitrary: h st)
  case Nil
  then show ?case by simp
next
  case (Cons lag rest)
  obtain h1 r1 where s: "lag_step_h h mxs mys aSx aSy lag = (h1, r1)"
    by (cases "lag_step_h h mxs mys aSx aSy lag") auto
  note f1 = lag_step_h_frame[OF s]
  show ?case
  proof (cases r1)
    case (Inl e)
    then show ?thesis using Cons.prems s f1 by simp
  next
    case (Inr st1)
    then have "lag_loop_h h1 mxs mys aSx aSy rest st1 = (h', r)" using Cons.prems s by simp
    from Cons.IH[OF this] f1 show ?thesis by simp
  qed
qed

lemma lag_loop_h_fresh:
  assumes "lag_loop_h (h @ ext) mxs mys (length h) (Suc (length h)) lags st = (h', r)"
  shows "take (length h) h' = h"
proof -
  note fr = lag_loop_h_frame[OF assms]
  have "take (length h) h' = take (length h) (h @ ext)"
    by (rule nth_equalityI) (use fr in \<open>auto simp: nth_append\<close>)
  then show ?thesis by simp
qed

lemma vectorized_h_frame:
  "take (length h) (fst (vectorized_MMSD_calcs_h h frames total1 axs ays ax ay frame_m)) = h"
proof -
  have app: "((((((((h @ [a1]) @ [a2]) @ [a3]) @ [a4]) @ [a5]) @ [a6]) @ [a7]) @ [a8]) @ [a9]
      = h @ [a1, a2, a3, a4, a5, a6, a7, a8, a9]" for a1 a2 a3 a4 a5 a6 a7 a8 a9 :: arr
    by simp
  show ?thesis
    unfolding vectorized_MMSD_calcs_h_def alloc_def
    by (auto split: arr.splits sum.splits prod.splits option.splits
        simp: app simp del: append_assoc lag_loop_h.simps dest: lag_loop_h_fresh)
qed

text \<open>On the store the engine ends as \<open>vectorized_MMSD_calcs\<close> does.\<close>

lemma lag_step_h_refines:
  assumes "h ! mxs = MaskedArr X" and "h ! mys = MaskedArr Y"
    and "h ! aSx = AccArr S1" and "h ! aSy = AccArr S2"
    and "aSx \<noteq> aSy" and "aSx < length h" and "aSy < length h"
    and "mxs \<noteq> aSx" and "mxs \<noteq> aSy" and "mys \<noteq> aSx" and "mys \<noteq> aSy"
  shows "(\<forall>e. lag_step X Y lag (a0, b0, S1, S2) = Inl e
            \<longrightarrow> snd (lag_step_h h mxs mys aSx aSy lag) = Inl e)
       \<and> (\<forall>a b S1' S2'. lag_step X Y lag (a0, b0, S1, S2) = Inr (a, b, S1', S2')
            \<longrightarrow> lag_step_h h mxs mys aSx aSy lag
                  = (h[aSx := AccArr S1', aSy := AccArr S2'], Inr (a, b)))"
  using assms unfolding lag_step_h_def lag_step_def ebind_def
  by (auto split: sum.splits)

lemma lag_loop_h_refines:
  assumes "h ! mxs = MaskedArr X" and "h ! mys = MaskedArr Y"
    and "h ! aSx = AccArr S1" and "h ! aSy = AccArr S2"
    and "aSx \<noteq> aSy" and "aSx < length h" and "aSy < length h"
    and "mxs \<noteq> aSx" and "mxs \<noteq> aSy" and "mys \<noteq> aSx" and "mys \<noteq> aSy"
  shows "snd (lag_loop_h h mxs mys aSx aSy lags (a0, b0))
           = map_sum (\<lambda>e. e) (\<lambda>st. (fst st, fst (snd st))) (lag_loop X Y lags (a0, b0, S1, S2))"
  using assms
proof (induction lags arbitrary: h a0 b0 S1 S2)
  case Nil
  then show ?case by simp
next
  case (Cons lag rest)
  note ref = lag_step_h_refines[OF Cons.prems, of lag a0 b0]
  show ?case
  proof (cases "lag_step X Y lag (a0, b0, S1, S2)")
    case (Inl e)
    then have "snd (lag_step_h h mxs mys aSx aSy lag) = Inl e" using ref by simp
    then show ?thesis using Inl
      by (cases "lag_step_h h mxs mys aSx aSy lag") simp
  next
    case (Inr st1)
    obtain a b S1' S2' where st1: "st1 = (a, b, S1', S2')" by (cases st1) auto
    let ?h' = "h[aSx := AccArr S1', aSy := AccArr S2']"
    have step: "lag_step_h h mxs mys aSx aSy lag = (?h', Inr (a, b))"
      using ref Inr st1 by simp
    have "snd (lag_loop_h ?h' mxs mys aSx aSy rest (a, b))
           = map_sum (\<lambda>e. e) (\<lambda>st. (fst st, fst (snd st))) (lag_loop X Y rest (a, b, S1', S2'))"
      by (rule Cons.IH) (use Cons.prems in auto)
    then show ?thesis using step Inr st1 by simp
  qed
qed

lemma vectorized_h_refines:
  assumes "h ! axs = PlainArr xs_m" and "h ! ays = PlainArr ys_m"
    and "h ! ax = PlainArr x_m" and "h ! ay = PlainArr y_m"
    and "axs < length h" and "ays < length h" and "ax < length h" and "ay < length h"
  shows "snd (vectorized_MMSD_calcs_h h frames total1 axs ays ax ay frame_m)
           = vectorized_MMSD_calcs frames total1 xs_m ys_m x_m y_m frame_m"
proof (cases "np_zeros2 frames (total1 - 1)")
  case (Inl e)
  then show ?thesis by (simp add: vectorized_MMSD_calcs_h_def vectorized_MMSD_calcs_def ebind_def)
next
  case (Inr z)
  note z = this
  show ?thesis
  proof (cases "np_zeros frame_m (0::real)")
    case (Inl e)
    then show ?thesis using assms
      by (simp add: vectorized_MMSD_calcs_h_def vectorized_MMSD_calcs_def ebind_def z alloc_def
          nth_append Let_def)
  next
    case (Inr g)
    let ?X = "masked_equal xs_m 0" and ?Y = "masked_equal ys_m 0"
    let ?h9 = "h @ [AccArr z, AccArr z, AccArr z, MaskedArr ?X, MaskedArr ?Y,
                    MaskedArr (masked_equal x_m 0), MaskedArr (masked_equal y_m 0),
                    VecArr g, VecArr g]"
    let ?n = "length h"
    have loop: "snd (lag_loop_h ?h9 (Suc (Suc (Suc ?n))) (Suc (Suc (Suc (Suc ?n)))) ?n (Suc ?n) [1..frame_m - 1] (None, None))
        = map_sum (\<lambda>e. e) (\<lambda>st. (fst st, fst (snd st)))
            (lag_loop ?X ?Y [1..frame_m - 1] (None, None, z, z))"
      by (rule lag_loop_h_refines) (simp_all add: nth_append)
    have pure: "vectorized_MMSD_calcs frames total1 xs_m ys_m x_m y_m frame_m
        = (case lag_loop ?X ?Y [1..frame_m - 1] (None, None, z, z) of
             Inl e \<Rightarrow> Inl e
           | Inr st \<Rightarrow>
               (case st of
                  (Some Mxa, Some Mya, SM1x', SM1y') \<Rightarrow>
                    ebind (ma_add_vec Mya Mxa) (\<lambda>s. np_ma_mean_axix (map ma_log s))
                | _ \<Rightarrow> Inl NameError))"
      unfolding vectorized_MMSD_calcs_def Let_def by (simp add: ebind_def z Inr)
    have hv: "vectorized_MMSD_calcs_h h frames total1 axs ays ax ay frame_m
        = (case lag_loop_h ?h9 (Suc (Suc (Suc ?n))) (Suc (Suc (Suc (Suc ?n)))) ?n (Suc ?n) [1..frame_m - 1] (None, None) of
             (h10, Inl e) \<Rightarrow> (h10, Inl e)
           | (h10, Inr (Some Mxa, Some Mya)) \<Rightarrow>
               (case ma_add_vec Mya Mxa of
                  Inl e \<Rightarrow> (h10, Inl e)
                | Inr s \<Rightarrow> (h10, np_ma_mean_axix (map ma_log s)))
           | (h10, Inr _) \<Rightarrow> (h10, Inl NameError))"
      using assms
      by (simp add: vectorized_MMSD_calcs_h_def z Inr alloc_def nth_append
          del: lag_loop_h.simps)
    show ?thesis
      unfolding hv pure using loop
      by (cases "lag_loop_h ?h9 (Suc (Suc (Suc ?n))) (Suc (Suc (Suc (Suc ?n)))) ?n (Suc ?n) [1..frame_m - 1] (None, None)";
          cases "lag_loop ?X ?Y [1..frame_m - 1] (None, None, z, z)")
        (auto simp: ebind_def split: sum.splits option.splits prod.splits)
  qed
qed


text \<open>
  C9. Neither \<open>fillin2\<close> nor \<open>vectorized_MMSD_calcs\<close> mutates an input: after the call,
  whether it returns or raises, every array that was in the store before the call (the
  inputs among them) holds the values it held before, and the array that \<open>fillin2\<close>
  returns lies at an address that did not exist before the call. The engine returns no
  array (it always raises); the arrays it allocates lie behind the old store as well.
\<close>

theorem inputs_not_mutated:
  "take (length h) (fst (fillin2_h h d)) = h
   \<and> (\<forall>out. snd (fillin2_h h d) = Inr out
         \<longrightarrow> length h \<le> out \<and> out < length (fst (fillin2_h h d)))
   \<and> take (length h) (fst (vectorized_MMSD_calcs_h h frames total1 axs ays ax ay frame_m)) = h"
  using fillin2_h_frame[of h d] vectorized_h_frame[of h frames total1 axs ays ax ay frame_m]
  by auto


text \<open>The theorem at a store of one trajectory and one position matrix.\<close>

theorem inputs_not_mutated_witness:
  "snd (fillin2_h [PointArr [\<lparr>track = 1, frame = 0, xpos = 10, ypos = 11, zpos = 0\<rparr>,
                             \<lparr>track = 1, frame = 2, xpos = 20, ypos = 21, zpos = 0\<rparr>],
                   PlainArr [[1], [2], [4]]] 0) = Inr 2
   \<and> take 2 (fst (fillin2_h [PointArr [\<lparr>track = 1, frame = 0, xpos = 10, ypos = 11, zpos = 0\<rparr>,
                             \<lparr>track = 1, frame = 2, xpos = 20, ypos = 21, zpos = 0\<rparr>],
                   PlainArr [[1], [2], [4]]] 0))
       = [PointArr [\<lparr>track = 1, frame = 0, xpos = 10, ypos = 11, zpos = 0\<rparr>,
                    \<lparr>track = 1, frame = 2, xpos = 20, ypos = 21, zpos = 0\<rparr>],
          PlainArr [[1], [2], [4]]]
   \<and> 2 < length (fst (fillin2_h [PointArr [\<lparr>track = 1, frame = 0, xpos = 10, ypos = 11, zpos = 0\<rparr>,
                             \<lparr>track = 1, frame = 2, xpos = 20, ypos = 21, zpos = 0\<rparr>],
                   PlainArr [[1], [2], [4]]] 0))
   \<and> take 2 (fst (vectorized_MMSD_calcs_h
                [PointArr [\<lparr>track = 1, frame = 0, xpos = 10, ypos = 11, zpos = 0\<rparr>,
                           \<lparr>track = 1, frame = 2, xpos = 20, ypos = 21, zpos = 0\<rparr>],
                 PlainArr [[1], [2], [4]]] 3 2 1 1 1 1 3))
       = [PointArr [\<lparr>track = 1, frame = 0, xpos = 10, ypos = 11, zpos = 0\<rparr>,
                    \<lparr>track = 1, frame = 2, xpos = 20, ypos = 21, zpos = 0\<rparr>],
          PlainArr [[1], [2], [4]]]"
proof -
  let ?H = "[PointArr [\<lparr>track = 1, frame = 0, xpos = 10, ypos = 11, zpos = 0\<rparr>,
                       \<lparr>track = 1, frame = 2, xpos = 20, ypos = 21, zpos = 0\<rparr>],
             PlainArr [[1], [2], [4]]]"
  have e: "snd (fillin2_h ?H 0) = Inr 2" by code_simp
  have len: "length ?H = 2" by simp
  show ?thesis using inputs_not_mutated[of ?H 0 3 2 1 1 1 1 3, unfolded len] e by blast
qed

end
